theory Spec2Isabelle
  imports Main "HOL-Library.AList"
begin

section \<open>Python values, errors and dictionaries\<close>

text \<open>
  The scraper (\<^verbatim>\<open>scraper.py\<close>) moves loosely typed spreadsheet cells through a
  list of dictionaries. A value is a string, the float NaN that pandas uses for an empty
  cell (the "absent marker"), \<^verbatim>\<open>None\<close>, an integer, or a \<^verbatim>\<open>datetime\<close>.
  Strings are ASCII character lists. Every exception the code can raise is a
  constructor of \<open>error\<close>; a function that can raise returns \<open>error + 'a\<close>.
\<close>

datatype error =
  KeyError | IndexError | ValueError | TypeError | AttributeError
  | UnboundLocalError | WebDriverException

record datetime =
  year :: nat
  month :: nat
  day :: nat
  hour :: nat
  minute :: nat
  second :: nat
  microsecond :: nat

datatype pyval = PNone | PStr string | PNaN | PInt int | PDateTime datetime

text \<open>\<^verbatim>\<open>not x\<close>: the values Python treats as false.\<close>

fun falsy :: "pyval \<Rightarrow> bool" where
  "falsy PNone = True"
| "falsy (PStr s) = (s = [])"
| "falsy PNaN = False"
| "falsy (PInt n) = (n = 0)"
| "falsy (PDateTime d) = False"

text \<open>\<^verbatim>\<open>type(x) is float and math.isnan(x)\<close>.\<close>

fun is_float_nan :: "pyval \<Rightarrow> bool" where
  "is_float_nan PNaN = True"
| "is_float_nan _ = False"


text \<open>
  A \<^verbatim>\<open>dict\<close> keeps insertion order: an association list, read with \<open>map_of\<close>
  and written with \<open>AList.update\<close> (in place when the key exists, appended otherwise).
  \<^verbatim>\<open>d[k]\<close> raises \<^verbatim>\<open>KeyError\<close> on a missing key, \<^verbatim>\<open>xs[i]\<close> raises
  \<^verbatim>\<open>IndexError\<close> out of range.
\<close>

type_synonym 'v pydict = "(string \<times> 'v) list"

definition getitem :: "'v pydict \<Rightarrow> string \<Rightarrow> error + 'v" where
  "getitem d k = (case map_of d k of None \<Rightarrow> Inl KeyError | Some v \<Rightarrow> Inr v)"

definition setitem :: "'v pydict \<Rightarrow> string \<Rightarrow> 'v \<Rightarrow> 'v pydict" where
  "setitem d k v = AList.update k v d"

definition list_get :: "'a list \<Rightarrow> nat \<Rightarrow> error + 'a" where
  "list_get xs i = (if i < length xs then Inr (xs ! i) else Inl IndexError)"

text \<open>Sequencing of two steps where the first may raise.\<close>

definition and_then :: "error + 'a \<Rightarrow> ('a \<Rightarrow> error + 'b) \<Rightarrow> error + 'b" where
  "and_then m f = (case m of Inl e \<Rightarrow> Inl e | Inr x \<Rightarrow> f x)"

section \<open>String helpers of the Python runtime\<close>

text \<open>
  ASCII character classes: the whitespace of \<^verbatim>\<open>str.split()\<close> and of the regular
  expression class \<^verbatim>\<open>\s\<close> (codes 9 to 13 and 28 to 32), the decimal digits, and
  lower-casing of the letters A to Z.
\<close>

definition is_space :: "char \<Rightarrow> bool" where
  "is_space c = (c \<in> set [CHR 0x09, CHR 0x0A, CHR 0x0B, CHR 0x0C, CHR 0x0D,
                            CHR 0x1C, CHR 0x1D, CHR 0x1E, CHR 0x1F, CHR 0x20])"

definition is_digit :: "char \<Rightarrow> bool" where
  "is_digit c = (c \<in> set ''0123456789'')"

definition digit_val :: "char \<Rightarrow> nat" where
  "digit_val c = (of_char c :: nat) - 48"

definition lower :: "char \<Rightarrow> char" where
  "lower c = (case map_of (zip ''ABCDEFGHIJKLMNOPQRSTUVWXYZ'' ''abcdefghijklmnopqrstuvwxyz'') c of
       Some l \<Rightarrow> l | None \<Rightarrow> c)"

text \<open>
  \<^verbatim>\<open>s.split(sep)\<close> with an explicit one-character separator: every occurrence
  splits, empty pieces are kept, and the result is never empty.
\<close>

fun split_on :: "char \<Rightarrow> string \<Rightarrow> string list" where
  "split_on sep [] = [[]]"
| "split_on sep (c # cs) =
     (if c = sep then [] # split_on sep cs
      else (case split_on sep cs of [] \<Rightarrow> [[c]] | w # ws \<Rightarrow> (c # w) # ws))"

text \<open>
  \<^verbatim>\<open>s.split()\<close> without a separator: runs of whitespace split, empty pieces are
  dropped. The first argument is the word read so far.
\<close>

fun split_ws_from :: "string \<Rightarrow> string \<Rightarrow> string list" where
  "split_ws_from w [] = (if w = [] then [] else [w])"
| "split_ws_from w (c # cs) =
     (if is_space c then (if w = [] then split_ws_from [] cs else w # split_ws_from [] cs)
      else split_ws_from (w @ [c]) cs)"

definition split_ws :: "string \<Rightarrow> string list" where
  "split_ws s = split_ws_from [] s"

text \<open>\<^verbatim>\<open>sep.join(xs)\<close>.\<close>

fun join :: "'a list \<Rightarrow> 'a list list \<Rightarrow> 'a list" where
  "join sep [] = []"
| "join sep [x] = x"
| "join sep (x # y # ys) = x @ sep @ join sep (y # ys)"

section \<open>The calendar and \<^verbatim>\<open>datetime.strptime\<close>\<close>

definition is_leap :: "nat \<Rightarrow> bool" where
  "is_leap y = (y mod 4 = 0 \<and> (y mod 100 \<noteq> 0 \<or> y mod 400 = 0))"

definition days_in_month :: "nat \<Rightarrow> nat \<Rightarrow> nat" where
  "days_in_month y m =
     (if m = 2 then (if is_leap y then 29 else 28)
      else if m = 4 \<or> m = 6 \<or> m = 9 \<or> m = 11 then 30 else 31)"

definition month_abbr :: "string list" where
  "month_abbr = [''jan'', ''feb'', ''mar'', ''apr'', ''may'', ''jun'',
                 ''jul'', ''aug'', ''sep'', ''oct'', ''nov'', ''dec'']"

fun index_of :: "'a \<Rightarrow> 'a list \<Rightarrow> nat option" where
  "index_of x [] = None"
| "index_of x (y # ys) = (if x = y then Some 0 else map_option Suc (index_of x ys))"

text \<open>
  The group that \<^verbatim>\<open>%d\<close> stands for: one digit 1 to 9, or two digits from 01 to 31.
\<close>

definition parse_day :: "string \<Rightarrow> nat option" where
  "parse_day ds =
     (case ds of
        [a] \<Rightarrow> if is_digit a \<and> a \<noteq> CHR ''0'' then Some (digit_val a) else None
      | [a, b] \<Rightarrow>
          if (a = CHR ''3'' \<and> (b = CHR ''0'' \<or> b = CHR ''1''))
             \<or> ((a = CHR ''1'' \<or> a = CHR ''2'') \<and> is_digit b)
             \<or> (a = CHR ''0'' \<and> is_digit b \<and> b \<noteq> CHR ''0'')
          then Some (10 * digit_val a + digit_val b) else None
      | _ \<Rightarrow> None)"

definition decimal :: "string \<Rightarrow> nat" where
  "decimal ds = foldl (\<lambda>n c. 10 * n + digit_val c) 0 ds"

text \<open>
  \<^verbatim>\<open>datetime.strptime(s, "%b %d, %Y")\<close>, \<open>None\<close> standing for its
  \<^verbatim>\<open>ValueError\<close>. The function belongs to the Python standard library, not to
  the repository; this is its behaviour for the one format the scraper passes, on ASCII
  input and in the C locale: a month abbreviation in any letter case, at least one
  whitespace character, the day, a comma, at least one whitespace character, exactly four
  digits, and nothing after them. The date must exist in the calendar (years start at 1).
  The time of day of the result is midnight.
\<close>

definition strptime_b_d_Y :: "string \<Rightarrow> datetime option" where
  "strptime_b_d_Y s =
     (case s of
        a # b # c # r0 \<Rightarrow>
          (case index_of (map lower [a, b, c]) month_abbr of
             None \<Rightarrow> None
           | Some mi \<Rightarrow>
               let r1 = dropWhile is_space r0;
                   ds = takeWhile is_digit r1;
                   r2 = dropWhile is_digit r1
               in if takeWhile is_space r0 = [] then None
                  else (case parse_day ds of
                     None \<Rightarrow> None
                   | Some d \<Rightarrow>
                       (case r2 of
                          [] \<Rightarrow> None
                        | p # r3 \<Rightarrow>
                            let r4 = dropWhile is_space r3;
                                y = decimal r4
                            in if p \<noteq> CHR '','' \<or> takeWhile is_space r3 = [] then None
                               else if length r4 \<noteq> 4 \<or> \<not> list_all is_digit r4 then None
                               else if y < 1 \<or> days_in_month y (Suc mi) < d then None
                               else Some \<lparr>year = y, month = Suc mi, day = d, hour = 0,
                                          minute = 0, second = 0, microsecond = 0\<rparr>)))
      | _ \<Rightarrow> None)"

section \<open>The field normalizers\<close>

text \<open>
  \<^verbatim>\<open>formatLibrary\<close>, \<^verbatim>\<open>formatVulnerability\<close> and \<^verbatim>\<open>formatDate\<close>
  (lines 162 to 178). Each returns NaN for a false or NaN argument. A method call on a
  value that is not a string raises \<^verbatim>\<open>AttributeError\<close>, string concatenation
  with a value that is not a string and \<^verbatim>\<open>strptime\<close> on one raise
  \<^verbatim>\<open>TypeError\<close>.
\<close>

definition formatLibrary :: "pyval \<Rightarrow> pyval \<Rightarrow> error + pyval" where
  "formatLibrary libName versionNumber =
     (if falsy libName \<or> is_float_nan libName then Inr PNaN
      else (case libName of
         PStr name \<Rightarrow>
           (let libNameList = split_on CHR ''-'' name;
                extension = last (split_on CHR ''.'' (last libNameList))
            in (case versionNumber of
                  PStr v \<Rightarrow>
                    Inr (PStr (join [] (butlast libNameList) @ ''-'' @ v @ ''.'' @ extension))
                | _ \<Rightarrow> Inl TypeError))
       | _ \<Rightarrow> Inl AttributeError))"

definition formatVulnerability :: "pyval \<Rightarrow> error + pyval" where
  "formatVulnerability vulnerabilitiesString =
     (if falsy vulnerabilitiesString \<or> is_float_nan vulnerabilitiesString then Inr PNaN
      else (case vulnerabilitiesString of
         PStr s \<Rightarrow> and_then (list_get (split_ws s) 0) (\<lambda>w. Inr (PStr w))
       | _ \<Rightarrow> Inl AttributeError))"

definition formatDate :: "pyval \<Rightarrow> error + pyval" where
  "formatDate dateString =
     (if falsy dateString \<or> is_float_nan dateString then Inr PNaN
      else (case dateString of
         PStr s \<Rightarrow>
           (case strptime_b_d_Y s of
              None \<Rightarrow> Inl ValueError
            | Some d \<Rightarrow> Inr (PDateTime d))
       | _ \<Rightarrow> Inl TypeError))"

section \<open>The object store\<close>

text \<open>
  The records are dictionaries that the program shares by reference: \<^verbatim>\<open>scrape_data\<close>
  and \<^verbatim>\<open>write_json\<close> update them in place, and a list of records is a list of
  references. The store maps each reference to the dictionary it currently holds.
\<close>

record store =
  next_ref :: nat
  objs :: "nat \<Rightarrow> pyval pydict"

definition alloc :: "pyval pydict \<Rightarrow> store \<Rightarrow> nat \<times> store" where
  "alloc d st =
     (next_ref st, st\<lparr>next_ref := Suc (next_ref st), objs := (objs st)(next_ref st := d)\<rparr>)"

text \<open>\<^verbatim>\<open>dep[k] = v\<close> on the dictionary behind the reference \<open>dep\<close>.\<close>

definition store_set :: "store \<Rightarrow> nat \<Rightarrow> string \<Rightarrow> pyval \<Rightarrow> store" where
  "store_set st dep k v = st\<lparr>objs := (objs st)(dep := setitem (objs st dep) k v)\<rparr>"

section \<open>The dependency loader\<close>

text \<open>
  A rectangular table of cells: the first sheet of the workbook as the spreadsheet
  reader parses it, and a pandas \<^verbatim>\<open>DataFrame\<close>. Rows and columns are counted from 0.
\<close>

record grid =
  nrows :: nat
  ncols :: nat
  cell :: "nat \<Rightarrow> nat \<Rightarrow> pyval"

text \<open>
  \<^verbatim>\<open>pd.read_excel(excelPath, sheet_name=0)\<close>. The call passes no \<^verbatim>\<open>header\<close>
  argument, so pandas applies its default \<^verbatim>\<open>header=0\<close>: row 0 of the sheet becomes
  the column labels and the frame's row 0 is row 1 of the sheet. (pandas is a library,
  not part of the repository; this is its documented behaviour.)
\<close>

definition read_excel :: "grid \<Rightarrow> grid" where
  "read_excel sheet =
     (if nrows sheet = 0 then \<lparr>nrows = 0, ncols = 0, cell = cell sheet\<rparr>
      else \<lparr>nrows = nrows sheet - 1, ncols = ncols sheet,
            cell = (\<lambda>r c. cell sheet (Suc r) c)\<rparr>)"

text \<open>
  \<^verbatim>\<open>df.iloc[r0:, c0:c1]\<close>: a slice never raises, it is cut at the frame's edge.
\<close>

definition iloc_slice :: "grid \<Rightarrow> nat \<Rightarrow> nat \<Rightarrow> nat \<Rightarrow> grid" where
  "iloc_slice df r0 c0 c1 =
     \<lparr>nrows = nrows df - r0, ncols = min c1 (ncols df) - c0,
      cell = (\<lambda>r c. cell df (r0 + r) (c0 + c))\<rparr>"

text \<open>
  \<^verbatim>\<open>df.iloc[:, c]\<close>: one column as a series (its length and its values); a column
  number beyond the frame raises \<^verbatim>\<open>IndexError\<close>. \<^verbatim>\<open>series.iloc[i]\<close> likewise.
\<close>

type_synonym series = "nat \<times> (nat \<Rightarrow> pyval)"

definition iloc_column :: "grid \<Rightarrow> nat \<Rightarrow> error + series" where
  "iloc_column df c =
     (if c < ncols df then Inr (nrows df, \<lambda>r. cell df r c) else Inl IndexError)"

definition series_get :: "series \<Rightarrow> nat \<Rightarrow> error + pyval" where
  "series_get s i = (if i < fst s then Inr (snd s i) else Inl IndexError)"

definition new_dependency :: "pyval \<Rightarrow> pyval \<Rightarrow> pyval \<Rightarrow> pyval \<Rightarrow> pyval pydict" where
  "new_dependency l v d u =
     [(''library'', l), (''vulnerabilities'', v), (''date'', d), (''url'', u)]"

text \<open>The loop of lines 45 to 51: one new dictionary per index, appended in order.\<close>

fun load_rows ::
  "nat list \<Rightarrow> series \<Rightarrow> series \<Rightarrow> series \<Rightarrow> series \<Rightarrow> nat list \<Rightarrow> store
     \<Rightarrow> error + (nat list \<times> store)" where
  "load_rows [] libraries vulnerabilities date url dependencies st = Inr (dependencies, st)"
| "load_rows (i # is) libraries vulnerabilities date url dependencies st =
     and_then (series_get libraries i) (\<lambda>l.
     and_then (series_get vulnerabilities i) (\<lambda>v.
     and_then (series_get date i) (\<lambda>d.
     and_then (series_get url i) (\<lambda>u.
       load_rows is libraries vulnerabilities date url
         (dependencies @ [fst (alloc (new_dependency l v d u) st)])
         (snd (alloc (new_dependency l v d u) st))))))"

text \<open>
  \<^verbatim>\<open>load_excel\<close> (lines 19 to 56); \<^verbatim>\<open>verbose\<close> only prints and is left out.
  The argument is the first sheet of the file at \<^verbatim>\<open>excelPath\<close>.
\<close>

definition load_excel :: "grid \<Rightarrow> store \<Rightarrow> error + (nat list \<times> store)" where
  "load_excel sheet st =
     (let df = read_excel sheet;
          cropped = iloc_slice df 1 5 12
      in and_then (iloc_column cropped 0) (\<lambda>libraries.
         and_then (iloc_column cropped 1) (\<lambda>vulnerabilities.
         and_then (iloc_column cropped 3) (\<lambda>date.
         and_then (iloc_column cropped 5) (\<lambda>url.
           load_rows [0..<fst libraries] libraries vulnerabilities date url [] st)))))"

section \<open>The version scraper\<close>

text \<open>
  What the browser shows for one visit, as far as the scraper reads it: either
  \<^verbatim>\<open>driver.get\<close> or one of the element lookups of lines 86 to 100 raises, or the page
  has a table of class "versions", of which the scraper reads the header texts and the
  texts of the first body row (\<open>None\<close> for a cell whose \<^verbatim>\<open>.text\<close> raises).
  The browser is a parameter: it answers per browser instance and URL.
\<close>

datatype page = LookupFailure | VersionsTable "string list" "string option list"

type_synonym browser = "nat \<Rightarrow> pyval \<Rightarrow> page"

text \<open>
  The local state of \<^verbatim>\<open>scrape_data\<close>: the two accumulators, the variable
  \<^verbatim>\<open>driver\<close> (unbound before the first iteration), and the browser instances:
  how many were launched and which are still open.
\<close>

record scraper =
  first_rows_of_version_table :: "string pydict list"
  failed_url :: "(nat \<times> pyval) list"
  driver :: "nat option"
  launched :: nat
  open_sessions :: "nat list"

definition new_scraper :: scraper where
  "new_scraper = \<lparr>first_rows_of_version_table = [], failed_url = [], driver = None,
                   launched = 0, open_sessions = []\<rparr>"

text \<open>
  The inner loop of lines 103 to 109. It rebinds the variable \<^verbatim>\<open>i\<close> of the outer
  loop, so the loop carries the current value of \<^verbatim>\<open>i\<close> and hands it back, also
  with the \<^verbatim>\<open>IndexError\<close> of \<^verbatim>\<open>headers[i]\<close>.
\<close>

fun pair_cells ::
  "string list \<Rightarrow> (nat \<times> string option) list \<Rightarrow> string pydict \<Rightarrow> nat
     \<Rightarrow> (error \<times> nat) + (string pydict \<times> nat)" where
  "pair_cells headers [] rowData i = Inr (rowData, i)"
| "pair_cells headers ((j, c) # cells) rowData i =
     (let x = (case c of Some t \<Rightarrow> t | None \<Rightarrow> [])
      in if j < length headers
         then pair_cells headers cells (setitem rowData (headers ! j) x) j
         else Inl (IndexError, j))"

text \<open>The body of the \<^verbatim>\<open>try\<close> (lines 84 to 109): its outcome and the value of \<^verbatim>\<open>i\<close>.\<close>

definition try_block :: "page \<Rightarrow> nat \<Rightarrow> (error \<times> nat) + (string pydict \<times> nat)" where
  "try_block pg i =
     (case pg of
        LookupFailure \<Rightarrow> Inl (WebDriverException, i)
      | VersionsTable headers cells \<Rightarrow> pair_cells headers (enumerate 0 cells) [] i)"

definition default_outcome :: "string pydict" where
  "default_outcome = [(''Version'', []), (''Vulnerabilities'', []), (''Date'', [])]"

text \<open>
  One iteration of the outer loop (lines 78 to 132) for the record \<open>dep\<close> at index
  \<open>i\<close>: launch a browser, read the URL (outside the \<^verbatim>\<open>try\<close>), run the
  \<^verbatim>\<open>try\<close>, on any exception take the default outcome and log the URL under the
  current \<^verbatim>\<open>i\<close>, close the browser in the \<^verbatim>\<open>finally\<close>, append the outcome.
\<close>

definition scrape_record :: "browser \<Rightarrow> store \<Rightarrow> nat \<Rightarrow> nat \<Rightarrow> scraper \<Rightarrow> error + scraper" where
  "scrape_record web st i dep sc =
     (let d = launched sc;
          sc1 = sc\<lparr>driver := Some d, launched := Suc d, open_sessions := d # open_sessions sc\<rparr>
      in and_then (getitem (objs st dep) ''url'') (\<lambda>url.
           let (rowData, sc2) =
                 (case try_block (web d url) i of
                    Inr (rowData, i') \<Rightarrow> (rowData, sc1)
                  | Inl (e, i') \<Rightarrow>
                      (default_outcome,
                       sc1\<lparr>failed_url := AList.update i' url (failed_url sc1)\<rparr>));
               sc3 = sc2\<lparr>open_sessions := remove1 d (open_sessions sc2)\<rparr>
           in Inr (sc3\<lparr>first_rows_of_version_table :=
                          first_rows_of_version_table sc3 @ [rowData]\<rparr>)))"

fun scrape_loop :: "browser \<Rightarrow> store \<Rightarrow> (nat \<times> nat) list \<Rightarrow> scraper \<Rightarrow> error + scraper" where
  "scrape_loop web st [] sc = Inr sc"
| "scrape_loop web st ((i, dep) # rest) sc =
     and_then (scrape_record web st i dep sc) (scrape_loop web st rest)"

section \<open>The normalize phase and \<^verbatim>\<open>scrape_data\<close>\<close>

text \<open>
  One iteration of the formatting loop (lines 141 to 152), in the order in which the
  source evaluates: the three reads of the raw outcome, the read of the record's
  library, the three format calls, the three assignments.
\<close>

definition format_record ::
  "nat \<Rightarrow> nat list \<Rightarrow> string pydict list \<Rightarrow> store \<Rightarrow> error + store" where
  "format_record i dependencies rows st =
     and_then (list_get rows i) (\<lambda>row.
     and_then (getitem row ''Version'') (\<lambda>versionNumber.
     and_then (getitem row ''Date'') (\<lambda>dateString.
     and_then (getitem row ''Vulnerabilities'') (\<lambda>vulnerabilitiesString.
     and_then (list_get dependencies i) (\<lambda>dep.
     and_then (getitem (objs st dep) ''library'') (\<lambda>libName.
     and_then (formatLibrary libName (PStr versionNumber)) (\<lambda>formatedVersion.
     and_then (formatVulnerability (PStr vulnerabilitiesString)) (\<lambda>formatedVulnerability.
     and_then (formatDate (PStr dateString)) (\<lambda>formatedDate.
       Inr (store_set
              (store_set (store_set st dep ''date'' formatedDate)
                 dep ''library'' formatedVersion)
              dep ''vulnerabilities'' formatedVulnerability))))))))))"

fun format_loop ::
  "nat list \<Rightarrow> nat list \<Rightarrow> string pydict list \<Rightarrow> store \<Rightarrow> error + store" where
  "format_loop [] dependencies rows st = Inr st"
| "format_loop (i # is) dependencies rows st =
     and_then (format_record i dependencies rows st) (format_loop is dependencies rows)"

text \<open>
  \<^verbatim>\<open>scrape_data\<close> (lines 60 to 159). After the scrape loop comes
  \<^verbatim>\<open>driver.quit()\<close>, which reads the variable \<^verbatim>\<open>driver\<close>; then the
  formatting loop; the function returns the list it was given.
\<close>

definition scrape_data :: "browser \<Rightarrow> store \<Rightarrow> nat list \<Rightarrow> error + (nat list \<times> store)" where
  "scrape_data web st dependencies =
     and_then (scrape_loop web st (enumerate 0 dependencies) new_scraper) (\<lambda>sc.
       (case driver sc of
          None \<Rightarrow> Inl UnboundLocalError
        | Some d \<Rightarrow>
            and_then
              (format_loop [0..<length dependencies] dependencies
                 (first_rows_of_version_table sc) st)
              (\<lambda>st'. Inr (dependencies, st'))))"

section \<open>The report writer\<close>

subsection \<open>Dates as text\<close>

definition digit_char :: "nat \<Rightarrow> char" where
  "digit_char n = ''0123456789abcdef'' ! n"

fun digits :: "nat \<Rightarrow> string" where
  "digits n = (if n < 10 then [digit_char n] else digits (n div 10) @ [digit_char (n mod 10)])"

declare digits.simps [simp del]

text \<open>A number printed with at least \<open>w\<close> digits, as \<^verbatim>\<open>%0wd\<close> does.\<close>

definition zfill :: "nat \<Rightarrow> nat \<Rightarrow> string" where
  "zfill w n = replicate (w - length (digits n)) CHR ''0'' @ digits n"

text \<open>
  \<^verbatim>\<open>value.isoformat()\<close> of a naive \<^verbatim>\<open>datetime\<close>, and
  \<^verbatim>\<open>strftime('%Y%m%d')\<close>. Both belong to the Python standard library.
\<close>

definition isoformat :: "datetime \<Rightarrow> string" where
  "isoformat d =
     zfill 4 (year d) @ ''-'' @ zfill 2 (month d) @ ''-'' @ zfill 2 (day d) @ ''T''
     @ zfill 2 (hour d) @ '':'' @ zfill 2 (minute d) @ '':'' @ zfill 2 (second d)
     @ (if microsecond d = 0 then [] else ''.'' @ zfill 6 (microsecond d))"

definition strftime_Ymd :: "datetime \<Rightarrow> string" where
  "strftime_Ymd d = zfill 4 (year d) @ zfill 2 (month d) @ zfill 2 (day d)"

subsection \<open>\<^verbatim>\<open>json.dump\<close>\<close>

text \<open>
  The document \<^verbatim>\<open>json.dump\<close> writes and its text for
  \<^verbatim>\<open>indent=4, ensure_ascii=False\<close>: the standard library's encoder, which refuses
  a \<^verbatim>\<open>datetime\<close> with \<^verbatim>\<open>TypeError\<close> and prints a NaN as the token NaN.
\<close>

datatype json =
  JNull | JString string | JNumber int | JNaN | JArray "json list"
  | JObject "(string \<times> json) list"

fun to_json :: "pyval \<Rightarrow> error + json" where
  "to_json PNone = Inr JNull"
| "to_json (PStr s) = Inr (JString s)"
| "to_json PNaN = Inr JNaN"
| "to_json (PInt n) = Inr (JNumber n)"
| "to_json (PDateTime d) = Inl TypeError"

fun items_to_json :: "pyval pydict \<Rightarrow> error + (string \<times> json) list" where
  "items_to_json [] = Inr []"
| "items_to_json ((k, v) # kvs) =
     and_then (to_json v) (\<lambda>j. and_then (items_to_json kvs) (\<lambda>js. Inr ((k, j) # js)))"

definition to_json_record :: "pyval pydict \<Rightarrow> error + json" where
  "to_json_record d = and_then (items_to_json d) (\<lambda>j. Inr (JObject j))"

fun records_to_json :: "pyval pydict list \<Rightarrow> error + json list" where
  "records_to_json [] = Inr []"
| "records_to_json (d # ds) =
     and_then (to_json_record d) (\<lambda>j. and_then (records_to_json ds) (\<lambda>js. Inr (j # js)))"

definition json_escape :: "char \<Rightarrow> string" where
  "json_escape c =
     (if c = CHR 0x22 then [CHR 0x5C, CHR 0x22]
      else if c = CHR 0x5C then [CHR 0x5C, CHR 0x5C]
      else if c = CHR 0x0A then [CHR 0x5C, CHR ''n'']
      else if c = CHR 0x0D then [CHR 0x5C, CHR ''r'']
      else if c = CHR 0x09 then [CHR 0x5C, CHR ''t'']
      else if c = CHR 0x08 then [CHR 0x5C, CHR ''b'']
      else if c = CHR 0x0C then [CHR 0x5C, CHR ''f'']
      else if (of_char c :: nat) < 32
        then [CHR 0x5C, CHR ''u'', CHR ''0'', CHR ''0'',
              digit_char ((of_char c :: nat) div 16), digit_char ((of_char c :: nat) mod 16)]
      else [c])"

definition json_string :: "string \<Rightarrow> string" where
  "json_string s = [CHR 0x22] @ concat (map json_escape s) @ [CHR 0x22]"

definition newline_indent :: "nat \<Rightarrow> nat \<Rightarrow> string" where
  "newline_indent indent level = CHR 0x0A # replicate (indent * level) CHR '' ''"

fun dumps :: "nat \<Rightarrow> nat \<Rightarrow> json \<Rightarrow> string" where
  "dumps indent level JNull = ''null''"
| "dumps indent level (JString s) = json_string s"
| "dumps indent level (JNumber n) = (if n < 0 then ''-'' @ digits (nat (- n)) else digits (nat n))"
| "dumps indent level JNaN = ''NaN''"
| "dumps indent level (JArray xs) =
     (if xs = [] then ''[]''
      else ''['' @ newline_indent indent (Suc level)
           @ join ('','' @ newline_indent indent (Suc level))
               (map (dumps indent (Suc level)) xs)
           @ newline_indent indent level @ '']'')"
| "dumps indent level (JObject kvs) =
     (if kvs = [] then ''{}''
      else ''{'' @ newline_indent indent (Suc level)
           @ join ('','' @ newline_indent indent (Suc level))
               (map (\<lambda>kv. json_string (fst kv) @ '': '' @ dumps indent (Suc level) (snd kv)) kvs)
           @ newline_indent indent level @ ''}'')"

subsection \<open>The JSON sink\<close>

text \<open>
  The body of the loop over \<^verbatim>\<open>dep.items()\<close> (lines 188 to 191): both tests read
  the value \<^verbatim>\<open>value\<close> that the iteration delivered, the assignments go to the
  dictionary itself.
\<close>

definition serialize_item :: "string \<Rightarrow> pyval \<Rightarrow> pyval pydict \<Rightarrow> pyval pydict" where
  "serialize_item k v dep =
     (let dep1 = (if is_float_nan v then setitem dep k (PStr []) else dep)
      in (case v of PDateTime d \<Rightarrow> setitem dep1 k (PStr (isoformat d)) | _ \<Rightarrow> dep1))"

fun serialize_items :: "(string \<times> pyval) list \<Rightarrow> pyval pydict \<Rightarrow> pyval pydict" where
  "serialize_items [] dep = dep"
| "serialize_items ((k, v) # items) dep = serialize_items items (serialize_item k v dep)"

text \<open>
  The loop over \<^verbatim>\<open>dep_copy\<close> (lines 186 to 191). \<^verbatim>\<open>dep_copy = dependencies[:]\<close>
  is a new list of the same references, so the assignments reach the caller's
  dictionaries: the loop updates the store.
\<close>

fun serialize_records :: "nat list \<Rightarrow> store \<Rightarrow> store" where
  "serialize_records [] st = st"
| "serialize_records (dep # dep_copy) st =
     serialize_records dep_copy
       (st\<lparr>objs := (objs st)(dep := serialize_items (objs st dep) (objs st dep))\<rparr>)"

type_synonym filesystem = "string \<Rightarrow> string option"

text \<open>
  \<^verbatim>\<open>write_json\<close> (lines 181 to 197); \<open>now\<close> is the value of
  \<^verbatim>\<open>datetime.now()\<close>.
\<close>

definition write_json ::
  "store \<Rightarrow> nat list \<Rightarrow> datetime \<Rightarrow> filesystem \<Rightarrow> error + (store \<times> filesystem)" where
  "write_json st dependencies now files =
     (let filename = strftime_Ymd now @ ''_dependencies.json'';
          dep_copy = dependencies;
          st' = serialize_records dep_copy st
      in and_then (records_to_json (map (objs st') dep_copy)) (\<lambda>js.
           Inr (st', files(filename \<mapsto> dumps 4 0 (JArray js)))))"

subsection \<open>The spreadsheet sink\<close>

text \<open>
  A worksheet of openpyxl: its title and its cells by row and column, both counted
  from 1. \<^verbatim>\<open>sheet.cell(row, column, value)\<close> stores the value unless it is
  \<^verbatim>\<open>None\<close>; \<^verbatim>\<open>row_data.get(k)\<close> is \<^verbatim>\<open>None\<close> for a missing key.
\<close>

record worksheet =
  title :: string
  cells :: "nat \<times> nat \<Rightarrow> pyval option"

definition write_cell :: "worksheet \<Rightarrow> nat \<Rightarrow> nat \<Rightarrow> pyval option \<Rightarrow> worksheet" where
  "write_cell ws r c v =
     (case v of
        None \<Rightarrow> ws
      | Some PNone \<Rightarrow> ws
      | Some x \<Rightarrow> ws\<lparr>cells := (cells ws)((r, c) \<mapsto> x)\<rparr>)"

text \<open>The loop of lines 218 to 221 over \<^verbatim>\<open>enumerate(dependencies, start=3)\<close>.\<close>

fun write_rows :: "(nat \<times> nat) list \<Rightarrow> store \<Rightarrow> worksheet \<Rightarrow> worksheet" where
  "write_rows [] st ws = ws"
| "write_rows ((row_idx, dep) # rest) st ws =
     write_rows rest st
       (write_cell
          (write_cell
             (write_cell ws row_idx 6 (map_of (objs st dep) ''library''))
             row_idx 7 (map_of (objs st dep) ''vulnerabilities''))
          row_idx 9 (map_of (objs st dep) ''date''))"

text \<open>
  \<^verbatim>\<open>write_excel\<close> (lines 200 to 223) on the workbook at \<^verbatim>\<open>excelPath\<close>, a list
  of worksheets: the first sheet is copied, the copy is titled and moved to the front,
  then filled. (openpyxl alters a title that another sheet already has; the model keeps
  the title the source assigns.)
\<close>

definition write_excel :: "store \<Rightarrow> nat list \<Rightarrow> datetime \<Rightarrow> worksheet list \<Rightarrow> error + worksheet list" where
  "write_excel st dependencies now workbook =
     (case workbook of
        [] \<Rightarrow> Inl IndexError
      | sheet_to_duplicate # others \<Rightarrow>
          (let new_sheet = sheet_to_duplicate\<lparr>title := ''t'' @ strftime_Ymd now\<rparr>
           in Inr (write_rows (enumerate 3 dependencies) st new_sheet # workbook)))"

subsection \<open>The whole program\<close>

text \<open>
  \<^verbatim>\<open>run\<close> (lines 226 to 232). The file at \<^verbatim>\<open>excelPath\<close> enters twice: as the
  sheet pandas reads and as the workbook openpyxl opens. The clock is read once in each
  sink.
\<close>

definition run ::
  "browser \<Rightarrow> datetime \<Rightarrow> datetime \<Rightarrow> grid \<Rightarrow> worksheet list \<Rightarrow> filesystem \<Rightarrow> store
     \<Rightarrow> error + (store \<times> nat list \<times> filesystem \<times> worksheet list)" where
  "run web now_json now_excel sheet workbook files st =
     and_then (load_excel sheet st) (\<lambda>loaded.
     and_then (scrape_data web (snd loaded) (fst loaded)) (\<lambda>scraped.
     and_then (write_json (snd scraped) (fst scraped) now_json files) (\<lambda>written.
     and_then (write_excel (fst written) (fst scraped) now_excel workbook) (\<lambda>workbook'.
       Inr (fst written, fst scraped, snd written, workbook')))))"

section \<open>Reference statements and example inputs\<close>

text \<open>
  The records that claim C2 describes for a sheet: row 0 is the header, every later row
  gives one record from columns 5, 6, 8 and 10.
\<close>

definition claimed_records :: "grid \<Rightarrow> pyval pydict list" where
  "claimed_records sheet =
     map (\<lambda>r. new_dependency (cell sheet r 5) (cell sheet r 6) (cell sheet r 8) (cell sheet r 10))
       [1..<nrows sheet]"

definition empty_store :: store where
  "empty_store = \<lparr>next_ref = 0, objs = (\<lambda>r. [])\<rparr>"

text \<open>The dictionaries \<^verbatim>\<open>load_excel\<close> returns, read through their references.\<close>

definition loaded_records :: "grid \<Rightarrow> error + pyval pydict list" where
  "loaded_records sheet =
     (case load_excel sheet empty_store of
        Inl e \<Rightarrow> Inl e
      | Inr loaded \<Rightarrow> Inr (map (objs (snd loaded)) (fst loaded)))"

text \<open>A sheet of three rows and eleven columns; the cell at row r, column c holds 100 r + c.\<close>

definition three_row_sheet :: grid where
  "three_row_sheet = \<lparr>nrows = 3, ncols = 11, cell = (\<lambda>r c. PInt (int (100 * r + c)))\<rparr>"

text \<open>
  The raw outcome that one iteration of the scrape loop appends, and the failure log it
  leaves, as functions of what the \<^verbatim>\<open>try\<close> block did.
\<close>

definition outcome_of :: "(error \<times> nat) + (string pydict \<times> nat) \<Rightarrow> string pydict" where
  "outcome_of r = (case r of Inr done \<Rightarrow> fst done | Inl raised \<Rightarrow> default_outcome)"

definition log_failure ::
  "(error \<times> nat) + (string pydict \<times> nat) \<Rightarrow> pyval \<Rightarrow> (nat \<times> pyval) list \<Rightarrow> (nat \<times> pyval) list" where
  "log_failure r url failed =
     (case r of Inr done \<Rightarrow> failed | Inl raised \<Rightarrow> AList.update (snd raised) url failed)"

text \<open>
  Three loaded records at the references 0, 1 and 2, and a browser whose second instance
  fails to find the page while the others show a versions table.
\<close>

definition three_records :: store where
  "three_records =
     \<lparr>next_ref = 3,
      objs = (\<lambda>r. if r < 3
                   then new_dependency (PStr ''commons-io-2.11.0.jar'') (PStr ''1'') PNaN
                          (PStr (''https://repo.example/'' @ digits r))
                   else [])\<rparr>"

definition second_page_fails :: browser where
  "second_page_fails =
     (\<lambda>d url. if d = 1 then LookupFailure
              else VersionsTable [''Version'', ''Vulnerabilities'', ''Date'']
                     [Some ''2.16.1'', Some ''2 vulnerabilities'', Some ''Jan 5, 2024''])"

text \<open>
  A sheet with two header rows and two data rows that hold a library name, a
  vulnerability text, a date text and a URL in the columns the loader reads.
\<close>

definition dependency_sheet :: grid where
  "dependency_sheet =
     \<lparr>nrows = 4, ncols = 11,
      cell = (\<lambda>r c. if c = 5 then PStr ''commons-io-2.11.0.jar''
                    else if c = 6 then PStr ''1 vulnerability''
                    else if c = 8 then PStr ''Mar 3, 2021''
                    else if c = 10 then PStr (''https://repo.example/'' @ digits r)
                    else PNaN)\<rparr>"

text \<open>A browser whose pages show a versions table without a column labelled Date.\<close>

definition page_without_date :: browser where
  "page_without_date =
     (\<lambda>d url. VersionsTable [''Version'', ''Vulnerabilities'', ''Released'']
                 [Some ''2.16.1'', Some ''2 vulnerabilities'', Some ''Jan 5, 2024''])"

text \<open>
  What the JSON sink is claimed to do to one value: the absent marker becomes the empty
  string, a date its ISO-8601 text, anything else stays. \<open>json_of\<close> is the JSON
  value of the result.
\<close>

fun json_ready :: "pyval \<Rightarrow> pyval" where
  "json_ready PNaN = PStr []"
| "json_ready (PDateTime d) = PStr (isoformat d)"
| "json_ready v = v"

fun json_of :: "pyval \<Rightarrow> json" where
  "json_of PNone = JNull"
| "json_of (PStr s) = JString s"
| "json_of PNaN = JString []"
| "json_of (PInt n) = JNumber n"
| "json_of (PDateTime d) = JString (isoformat d)"

definition ready_record :: "pyval pydict \<Rightarrow> pyval pydict" where
  "ready_record d = map (\<lambda>kv. (fst kv, json_ready (snd kv))) d"

definition json_record :: "pyval pydict \<Rightarrow> json" where
  "json_record d = JObject (map (\<lambda>kv. (fst kv, json_of (snd kv))) d)"

text \<open>
  Two records as \<^verbatim>\<open>scrape_data\<close> leaves them (the second after a failed scrape of
  a row without URL), and a reading of the clock.
\<close>

definition fifth_of_january :: datetime where
  "fifth_of_january = \<lparr>year = 2024, month = 1, day = 5, hour = 0, minute = 0,
                        second = 0, microsecond = 0\<rparr>"

definition scraped_records :: store where
  "scraped_records =
     \<lparr>next_ref = 2,
      objs = (\<lambda>r. if r = 0
                   then new_dependency (PStr ''commonsio-2.16.1.jar'') (PStr ''2'')
                          (PDateTime fifth_of_january)
                          (PStr ''https://repo.example/2'')
                   else if r = 1
                   then new_dependency (PStr ''commonsio-.jar'') PNaN PNaN PNaN
                   else [])\<rparr>"

definition third_of_november :: datetime where
  "third_of_november = \<lparr>year = 2026, month = 11, day = 3, hour = 14, minute = 45,
                         second = 9, microsecond = 120\<rparr>"

text \<open>
  The values the normalize phase leaves in a record: a text or NaN for the library and
  the vulnerabilities, a date or NaN for the date.
\<close>

fun is_text_or_nan :: "pyval \<Rightarrow> bool" where
  "is_text_or_nan PNaN = True"
| "is_text_or_nan (PStr s) = True"
| "is_text_or_nan v = False"

fun is_date_or_nan :: "pyval \<Rightarrow> bool" where
  "is_date_or_nan PNaN = True"
| "is_date_or_nan (PDateTime d) = True"
| "is_date_or_nan v = False"

definition normalized :: "pyval pydict \<Rightarrow> bool" where
  "normalized d =
     ((case map_of d ''library'' of Some v \<Rightarrow> is_text_or_nan v | None \<Rightarrow> False)
      \<and> (case map_of d ''vulnerabilities'' of Some v \<Rightarrow> is_text_or_nan v | None \<Rightarrow> False)
      \<and> (case map_of d ''date'' of Some v \<Rightarrow> is_date_or_nan v | None \<Rightarrow> False))"

text \<open>An empty first worksheet, for the spreadsheet sink.\<close>

definition blank_workbook :: "worksheet list" where
  "blank_workbook = [\<lparr>title = ''Sheet1'', cells = (\<lambda>rc. None)\<rparr>]"



section \<open>Properties of the string helpers\<close>

lemma split_on_not_Nil: "split_on sep s \<noteq> []"
  by (induction s) (auto split: list.splits)





lemma split_on_pieces: "x \<in> set (split_on sep s) \<Longrightarrow> sep \<notin> set x"
proof (induction s arbitrary: x)
  case Nil
  then show ?case by simp
next
  case (Cons c cs)
  obtain w ws where "split_on sep cs = w # ws"
    using split_on_not_Nil [of sep cs] by (cases "split_on sep cs") auto
  with Cons show ?case by (auto split: if_splits)
qed


section \<open>\<^verbatim>\<open>formatLibrary\<close>\<close>






section \<open>\<^verbatim>\<open>scrape_data\<close> on an empty list\<close>

text \<open>
  Claim C1 says that for every number of input records \<^verbatim>\<open>scrape_data\<close> returns a
  list of that many records. With no record the loop body never runs, the variable
  \<^verbatim>\<open>driver\<close> is never bound, and \<^verbatim>\<open>driver.quit()\<close> (line 134) raises
  \<^verbatim>\<open>UnboundLocalError\<close>: nothing is returned.
\<close>

theorem scrape_data_no_records: "scrape_data web st [] = Inl UnboundLocalError"
  by (simp add: scrape_data_def and_then_def new_scraper_def)

section \<open>Sequencing\<close>

lemma and_then_Inr [simp]: "and_then (Inr x) f = f x"
  by (simp add: and_then_def)

lemma and_then_Inl [simp]: "and_then (Inl e) f = Inl e"
  by (simp add: and_then_def)

lemma and_then_eq_Inr:
  "and_then m f = Inr y \<longleftrightarrow> (\<exists>x. m = Inr x \<and> f x = Inr y)"
  by (cases m) auto

section \<open>The loader\<close>

text \<open>
  The loop allocates one dictionary per index, in order, and leaves the dictionaries
  that were there untouched.
\<close>

lemma load_rows_allocates:
  assumes "\<forall>i\<in>set is. i < fst libs \<and> i < fst vuls \<and> i < fst dats \<and> i < fst urls"
  shows "\<exists>st'. load_rows is libs vuls dats urls deps st
             = Inr (deps @ [next_ref st..<next_ref st + length is], st')
           \<and> next_ref st' = next_ref st + length is
           \<and> (\<forall>r. r < next_ref st \<longrightarrow> objs st' r = objs st r)
           \<and> (\<forall>k<length is. objs st' (next_ref st + k)
                 = new_dependency (snd libs (is ! k)) (snd vuls (is ! k))
                     (snd dats (is ! k)) (snd urls (is ! k)))"
  using assms
proof (induction "is" arbitrary: deps st)
  case Nil
  then show ?case by simp
next
  case (Cons i "is")
  define d where "d = new_dependency (snd libs i) (snd vuls i) (snd dats i) (snd urls i)"
  define st1 where "st1 = snd (alloc d st)"
  have st1: "next_ref st1 = Suc (next_ref st)" "objs st1 = (objs st)(next_ref st := d)"
    "fst (alloc d st) = next_ref st"
    by (simp_all add: st1_def alloc_def)
  from Cons.prems have rest: "\<forall>i\<in>set is. i < fst libs \<and> i < fst vuls \<and> i < fst dats \<and> i < fst urls"
    and i: "i < fst libs" "i < fst vuls" "i < fst dats" "i < fst urls"
    by simp_all
  from Cons.IH [OF rest, of "deps @ [next_ref st]" st1]
  obtain st' where st':
    "load_rows is libs vuls dats urls (deps @ [next_ref st]) st1
       = Inr ((deps @ [next_ref st]) @ [next_ref st1..<next_ref st1 + length is], st')"
    "next_ref st' = next_ref st1 + length is"
    "\<forall>r. r < next_ref st1 \<longrightarrow> objs st' r = objs st1 r"
    "\<forall>k<length is. objs st' (next_ref st1 + k)
                 = new_dependency (snd libs (is ! k)) (snd vuls (is ! k))
                     (snd dats (is ! k)) (snd urls (is ! k))"
    by blast
  have "load_rows (i # is) libs vuls dats urls deps st
          = load_rows is libs vuls dats urls (deps @ [next_ref st]) st1"
    using i by (simp add: series_get_def st1_def d_def alloc_def)
  moreover have "[next_ref st..<Suc (next_ref st + length is)]
      = next_ref st # [Suc (next_ref st)..<Suc (next_ref st + length is)]"
    by (rule upt_conv_Cons) simp
  then have "(deps @ [next_ref st]) @ [next_ref st1..<next_ref st1 + length is]
      = deps @ [next_ref st..<next_ref st + length (i # is)]"
    by (simp add: st1)
  moreover have "\<forall>r. r < next_ref st \<longrightarrow> objs st' r = objs st r"
    using st'(3) by (simp add: st1)
  moreover have "\<forall>k<length (i # is). objs st' (next_ref st + k)
                 = new_dependency (snd libs ((i # is) ! k)) (snd vuls ((i # is) ! k))
                     (snd dats ((i # is) ! k)) (snd urls ((i # is) ! k))"
  proof (intro allI impI)
    fix k assume k: "k < length (i # is)"
    show "objs st' (next_ref st + k)
                 = new_dependency (snd libs ((i # is) ! k)) (snd vuls ((i # is) ! k))
                     (snd dats ((i # is) ! k)) (snd urls ((i # is) ! k))"
    proof (cases k)
      case 0
      then show ?thesis using st'(3) by (simp add: st1 d_def)
    next
      case (Suc k')
      then show ?thesis using st'(4) k by (simp add: st1)
    qed
  qed
  ultimately show ?case using st'(1,2) by (auto simp: st1)
qed

lemma load_excel_rows:
  assumes "1 \<le> nrows sheet" "11 \<le> ncols sheet"
  shows "\<exists>deps st'. load_excel sheet st = Inr (deps, st')
           \<and> deps = [next_ref st..<next_ref st + (nrows sheet - 2)]
           \<and> map (objs st') deps
               = map (\<lambda>r. new_dependency (cell sheet r 5) (cell sheet r 6)
                                         (cell sheet r 8) (cell sheet r 10))
                   [2..<nrows sheet]
           \<and> (\<forall>r. r < next_ref st \<longrightarrow> objs st' r = objs st r)"
proof -
  define df where "df = read_excel sheet"
  define cropped where "cropped = iloc_slice df 1 5 12"
  define n where "n = nrows sheet - 2"
  have cr: "nrows cropped = n" "6 \<le> ncols cropped"
    "\<And>r c. cell cropped r c = cell sheet (r + 2) (c + 5)"
    using assms by (simp_all add: cropped_def df_def read_excel_def iloc_slice_def n_def add.commute)
  define col where "col c = (n, \<lambda>r. cell sheet (r + 2) (c + 5))" for c :: nat
  have cols: "iloc_column cropped 0 = Inr (col 0)" "iloc_column cropped 1 = Inr (col 1)"
    "iloc_column cropped 3 = Inr (col 3)" "iloc_column cropped 5 = Inr (col 5)"
    using cr by (simp_all add: iloc_column_def col_def)
  have le: "load_excel sheet st = load_rows [0..<n] (col 0) (col 1) (col 3) (col 5) [] st"
    unfolding load_excel_def Let_def df_def [symmetric] cropped_def [symmetric] cols
    by (simp add: col_def)
  have "\<forall>i\<in>set [0..<n]. i < fst (col 0) \<and> i < fst (col 1) \<and> i < fst (col 3) \<and> i < fst (col 5)"
    by (simp add: col_def)
  from load_rows_allocates [OF this, of "[]" st]
  obtain st' where st':
    "load_rows [0..<n] (col 0) (col 1) (col 3) (col 5) [] st
       = Inr ([next_ref st..<next_ref st + n], st')"
    "\<forall>r. r < next_ref st \<longrightarrow> objs st' r = objs st r"
    "\<forall>k<n. objs st' (next_ref st + k)
        = new_dependency (snd (col 0) k) (snd (col 1) k) (snd (col 3) k) (snd (col 5) k)"
    by auto
  have "map (objs st') [next_ref st..<next_ref st + n]
      = map (\<lambda>r. new_dependency (cell sheet r 5) (cell sheet r 6) (cell sheet r 8) (cell sheet r 10))
          [2..<nrows sheet]"
  proof (rule nth_equalityI)
    show "length (map (objs st') [next_ref st..<next_ref st + n])
        = length (map (\<lambda>r. new_dependency (cell sheet r 5) (cell sheet r 6) (cell sheet r 8) (cell sheet r 10))
          [2..<nrows sheet])"
      by (simp add: n_def)
  next
    fix k assume "k < length (map (objs st') [next_ref st..<next_ref st + n])"
    then have k: "k < n" by simp
    then have "2 + k < nrows sheet" by (simp add: n_def)
    then have nth: "[2..<nrows sheet] ! k = 2 + k" by (rule nth_upt)
    have len: "k < length [2..<nrows sheet]" using k by (simp add: n_def)
    have "map (objs st') [next_ref st..<next_ref st + n] ! k = objs st' (next_ref st + k)"
      using k by simp
    also have "\<dots> = new_dependency (cell sheet (2 + k) 5) (cell sheet (2 + k) 6)
                         (cell sheet (2 + k) 8) (cell sheet (2 + k) 10)"
      using k st'(3) by (simp add: col_def)
    also have "\<dots> = map (\<lambda>r. new_dependency (cell sheet r 5) (cell sheet r 6)
                                 (cell sheet r 8) (cell sheet r 10)) [2..<nrows sheet] ! k"
      unfolding nth_map [OF len] nth by (rule refl)
    finally show "map (objs st') [next_ref st..<next_ref st + n] ! k
        = map (\<lambda>r. new_dependency (cell sheet r 5) (cell sheet r 6) (cell sheet r 8) (cell sheet r 10))
          [2..<nrows sheet] ! k" .
  qed
  then show ?thesis using le st'(1,2) by (simp add: n_def)
qed

text \<open>
  Claim C2, amended. \<^verbatim>\<open>read_excel\<close> takes row 0 of the sheet for the column
  labels, and \<^verbatim>\<open>df.iloc[1:, 5:12]\<close> then leaves out row 0 of the frame, which is
  row 1 of the sheet: two rows are skipped, not one. For a sheet with at least one row and
  at least eleven columns \<^verbatim>\<open>load_excel\<close> succeeds and returns one new dictionary
  for each sheet row from row 2 on, in row order, holding the cells of columns 5
  (library), 6 (vulnerabilities), 8 (date) and 10 (url); dictionaries that existed
  before are unchanged.
\<close>

theorem load_excel_from_third_row:
  assumes "1 \<le> nrows sheet" "11 \<le> ncols sheet"
  shows "\<exists>deps st'. load_excel sheet st = Inr (deps, st')
           \<and> deps = [next_ref st..<next_ref st + (nrows sheet - 2)]
           \<and> map (objs st') deps
               = map (\<lambda>r. new_dependency (cell sheet r 5) (cell sheet r 6)
                                         (cell sheet r 8) (cell sheet r 10))
                   [2..<nrows sheet]
           \<and> (\<forall>r. r < next_ref st \<longrightarrow> objs st' r = objs st r)"
  using assms by (rule load_excel_rows)

theorem load_excel_from_third_row_witness:
  "1 \<le> nrows three_row_sheet \<and> 11 \<le> ncols three_row_sheet
   \<and> (\<exists>deps st'. load_excel three_row_sheet empty_store = Inr (deps, st') \<and> deps = [0]
         \<and> map (objs st') deps = [new_dependency (PInt 205) (PInt 206) (PInt 208) (PInt 210)])"
  using load_excel_from_third_row [of three_row_sheet empty_store]
  by (simp add: three_row_sheet_def empty_store_def upt_conv_Cons)

text \<open>
  Claim C2 as stated fails on the three-row sheet: the claim gives two records (rows 1
  and 2), \<^verbatim>\<open>load_excel\<close> returns one (row 2).
\<close>

theorem load_excel_counterexample:
  "loaded_records three_row_sheet
     = Inr [new_dependency (PInt 205) (PInt 206) (PInt 208) (PInt 210)]
   \<and> claimed_records three_row_sheet
     = [new_dependency (PInt 105) (PInt 106) (PInt 108) (PInt 110),
        new_dependency (PInt 205) (PInt 206) (PInt 208) (PInt 210)]
   \<and> loaded_records three_row_sheet \<noteq> Inr (claimed_records three_row_sheet)"
  by (simp add: loaded_records_def three_row_sheet_def load_excel_def read_excel_def
      iloc_slice_def iloc_column_def series_get_def alloc_def empty_store_def claimed_records_def
      upt_conv_Cons)

section \<open>The scrape loop\<close>

text \<open>
  For a record that has a URL, one iteration never raises: it appends one outcome,
  logs a failure if the \<^verbatim>\<open>try\<close> block raised, and leaves the set of open browser
  instances as it found it.
\<close>

lemma scrape_record_Inr:
  assumes "map_of (objs st dep) ''url'' = Some url"
  shows "scrape_record web st i dep sc
    = Inr (sc\<lparr>first_rows_of_version_table :=
                 first_rows_of_version_table sc @ [outcome_of (try_block (web (launched sc) url) i)],
               failed_url := log_failure (try_block (web (launched sc) url) i) url (failed_url sc),
               driver := Some (launched sc),
               launched := Suc (launched sc)\<rparr>)"
  using assms
  by (cases "try_block (web (launched sc) url) i")
     (auto simp: scrape_record_def getitem_def outcome_of_def log_failure_def Let_def)

lemma upt_0_Suc: "[0..<Suc m] = 0 # map Suc [0..<m]"
proof -
  have "[0..<Suc m] = 0 # [Suc 0..<Suc m]" by (rule upt_conv_Cons) simp
  then show ?thesis by (simp only: map_Suc_upt)
qed

lemma map_upt_Suc: "map f [0..<Suc m] = f 0 # map (\<lambda>k. f (Suc k)) [0..<m]"
  by (simp only: upt_0_Suc list.map map_map o_def)

lemma foldl_upt_Suc: "foldl g a [0..<Suc m] = foldl (\<lambda>b k. g b (Suc k)) (g a 0) [0..<m]"
  by (simp only: upt_0_Suc foldl_Cons foldl_map)

lemma scrape_loop_closed_form:
  assumes "map (\<lambda>dep. map_of (objs st dep) ''url'') deps = map Some urls"
  shows "scrape_loop web st (enumerate n deps) sc
    = Inr (sc\<lparr>first_rows_of_version_table :=
                 first_rows_of_version_table sc
                 @ map (\<lambda>k. outcome_of (try_block (web (launched sc + k) (urls ! k)) (n + k)))
                     [0..<length deps],
               failed_url :=
                 foldl (\<lambda>failed k.
                          log_failure (try_block (web (launched sc + k) (urls ! k)) (n + k))
                            (urls ! k) failed)
                   (failed_url sc) [0..<length deps],
               driver := (if deps = [] then driver sc else Some (launched sc + length deps - 1)),
               launched := launched sc + length deps\<rparr>)"
  using assms
proof (induction deps arbitrary: n sc urls)
  case Nil
  then show ?case by simp
next
  case (Cons dep deps)
  then obtain u us where urls: "urls = u # us" "map_of (objs st dep) ''url'' = Some u"
    "map (\<lambda>dep. map_of (objs st dep) ''url'') deps = map Some us"
    by (cases urls) auto
  show ?case
    unfolding urls(1)
    by (simp add: enumerate_simps scrape_record_Inr [OF urls(2)] Cons.IH [OF urls(3)]
        map_upt_Suc foldl_upt_Suc del: upt_Suc)
qed

lemma new_scraper_simps [simp]:
  "first_rows_of_version_table new_scraper = []" "failed_url new_scraper = []"
  "driver new_scraper = None" "launched new_scraper = 0" "open_sessions new_scraper = []"
  by (simp_all add: new_scraper_def)

lemma pair_cells_fits:
  "j + length cs \<le> length hs \<Longrightarrow>
     \<exists>rd' i'. pair_cells hs (enumerate j cs) rd i = Inr (rd', i')
       \<and> fst ` set rd' \<subseteq> fst ` set rd \<union> set hs"
proof (induction cs arbitrary: j rd i)
  case Nil
  then show ?case by simp
next
  case (Cons c cs)
  then have j: "j < length hs" and rest: "Suc j + length cs \<le> length hs" by simp_all
  from Cons.IH [OF rest, of "setitem rd (hs ! j) (case c of Some t \<Rightarrow> t | None \<Rightarrow> [])" j]
  obtain rd' i' where step:
    "pair_cells hs (enumerate (Suc j) cs)
       (setitem rd (hs ! j) (case c of Some t \<Rightarrow> t | None \<Rightarrow> [])) j = Inr (rd', i')"
    "fst ` set rd' \<subseteq> fst ` set (setitem rd (hs ! j) (case c of Some t \<Rightarrow> t | None \<Rightarrow> [])) \<union> set hs"
    by blast
  have "hs ! j \<in> set hs" using j by simp
  with step(2) have "fst ` set rd' \<subseteq> fst ` set rd \<union> set hs"
    by (auto simp: setitem_def dom_update)
  with step(1) show ?case using j by (simp add: enumerate_simps)
qed

lemma try_block_table:
  assumes "length cs \<le> length hs"
  shows "\<exists>rd i'. try_block (VersionsTable hs cs) i = Inr (rd, i') \<and> fst ` set rd \<subseteq> set hs"
  using pair_cells_fits [of 0 cs hs "[]" i] assms by (auto simp: try_block_def)











section \<open>The normalize phase\<close>

text \<open>
  An iteration of the formatting loop assigns to the keys date, library and
  vulnerabilities of one dictionary and to nothing else.
\<close>

lemma and_then_eq_Inl:
  "and_then m f = Inl e \<longleftrightarrow> m = Inl e \<or> (\<exists>x. m = Inr x \<and> f x = Inl e)"
  by (cases m) auto

lemma store_set_frame:
  "next_ref (store_set st dep k v) = next_ref st"
  "k' \<noteq> k \<Longrightarrow> map_of (objs (store_set st dep k v) r) k' = map_of (objs st r) k'"
  by (simp_all add: store_set_def setitem_def update_conv')

lemma format_record_frame:
  assumes "format_record i deps rows st = Inr st'"
  shows "next_ref st' = next_ref st"
    and "k \<notin> {''date'', ''library'', ''vulnerabilities''} \<Longrightarrow>
           map_of (objs st' r) k = map_of (objs st r) k"
  using assms
  by (auto simp: format_record_def and_then_eq_Inr store_set_frame)

lemma format_loop_frame_all:
  "format_loop is deps rows st = Inr st' \<Longrightarrow>
     next_ref st' = next_ref st
     \<and> (\<forall>r k. k \<notin> {''date'', ''library'', ''vulnerabilities''} \<longrightarrow>
            map_of (objs st' r) k = map_of (objs st r) k)"
proof (induction "is" arbitrary: st)
  case Nil
  then show ?case by simp
next
  case (Cons i "is")
  then obtain st1 where st1: "format_record i deps rows st = Inr st1"
    "format_loop is deps rows st1 = Inr st'"
    by (auto simp: and_then_eq_Inr)
  from Cons.IH [OF st1(2)] format_record_frame [OF st1(1)] show ?case by simp
qed

lemma format_loop_frame:
  assumes "format_loop is deps rows st = Inr st'"
  shows "next_ref st' = next_ref st"
    and "k \<notin> {''date'', ''library'', ''vulnerabilities''} \<Longrightarrow>
           map_of (objs st' r) k = map_of (objs st r) k"
  using format_loop_frame_all [OF assms] by simp_all

lemma format_loop_append:
  "format_loop (xs @ ys) deps rows st
     = and_then (format_loop xs deps rows st) (format_loop ys deps rows)"
  by (induction xs arbitrary: st) (auto simp: and_then_def split: sum.splits)

lemma scrape_data_Inr:
  assumes "scrape_data web st deps = Inr (deps', st')"
  shows "deps' = deps"
    and "\<exists>sc. scrape_loop web st (enumerate 0 deps) new_scraper = Inr sc
           \<and> format_loop [0..<length deps] deps (first_rows_of_version_table sc) st = Inr st'"
  using assms by (auto simp: scrape_data_def and_then_eq_Inr split: option.splits)

lemma scrape_data_frame:
  assumes "scrape_data web st deps = Inr (deps', st')"
  shows "deps' = deps" and "next_ref st' = next_ref st"
    and "k \<notin> {''date'', ''library'', ''vulnerabilities''} \<Longrightarrow>
           map_of (objs st' r) k = map_of (objs st r) k"
  using scrape_data_Inr [OF assms] format_loop_frame by blast+

lemma getitem_missing: "key \<notin> fst ` set d \<Longrightarrow> getitem d key = Inl KeyError"
  by (simp add: getitem_def map_of_eq_None_iff [THEN iffD2])

lemma getitem_cases: "getitem d key = Inl KeyError \<or> (\<exists>v. getitem d key = Inr v)"
  by (simp add: getitem_def split: option.splits)

lemma format_record_KeyError:
  assumes "k < length rows"
    and "\<not> {''Version'', ''Vulnerabilities'', ''Date''} \<subseteq> fst ` set (rows ! k)"
  shows "format_record k deps rows st = Inl KeyError"
proof -
  from assms(2) have "getitem (rows ! k) ''Version'' = Inl KeyError
      \<or> getitem (rows ! k) ''Date'' = Inl KeyError
      \<or> getitem (rows ! k) ''Vulnerabilities'' = Inl KeyError"
    using getitem_missing [of _ "rows ! k"] by auto
  then show ?thesis
    using assms(1) getitem_cases [of "rows ! k" "''Version''"]
      getitem_cases [of "rows ! k" "''Date''"]
    by (auto simp: format_record_def list_get_def)
qed

lemma load_excel_Inr_shape:
  assumes "load_excel sheet st = Inr x"
  shows "1 \<le> nrows sheet \<and> 11 \<le> ncols sheet"
proof (rule ccontr)
  assume "\<not> (1 \<le> nrows sheet \<and> 11 \<le> ncols sheet)"
  then have "ncols (iloc_slice (read_excel sheet) 1 5 12) \<le> 5"
    by (auto simp: iloc_slice_def read_excel_def)
  then have "iloc_column (iloc_slice (read_excel sheet) 1 5 12) 5 = Inl IndexError"
    by (simp add: iloc_column_def)
  then have "\<exists>e. load_excel sheet st = Inl e"
    by (auto simp: load_excel_def Let_def and_then_def split: sum.splits)
  with assms show False by auto
qed

lemma url_of_new_dependency: "map_of (new_dependency l v d u) ''url'' = Some u"
  by (simp add: new_dependency_def)

lemma loaded_urls:
  assumes "load_excel sheet st0 = Inr (deps, st)"
  shows "map (\<lambda>r. map_of (objs st r) ''url'') deps = map (\<lambda>r. Some (cell sheet r 10)) [2..<nrows sheet]"
proof -
  from load_excel_Inr_shape [OF assms] load_excel_rows [of sheet st0] assms
  have "map (objs st) deps
      = map (\<lambda>r. new_dependency (cell sheet r 5) (cell sheet r 6) (cell sheet r 8) (cell sheet r 10))
          [2..<nrows sheet]"
    by auto
  then have "map (\<lambda>d. map_of d ''url'') (map (objs st) deps)
      = map (\<lambda>d. map_of d ''url'')
          (map (\<lambda>r. new_dependency (cell sheet r 5) (cell sheet r 6) (cell sheet r 8) (cell sheet r 10))
          [2..<nrows sheet])"
    by simp
  then show ?thesis by (simp add: o_def url_of_new_dependency)
qed

lemma example_scrape_returns:
  "\<exists>st'. scrape_data second_page_fails three_records [0, 1, 2] = Inr ([0, 1, 2], st')"
proof -
  have "case scrape_data second_page_fails three_records [0, 1, 2] of
     Inl e \<Rightarrow> False
   | Inr scraped \<Rightarrow> fst scraped = [0, 1, 2]"
    by code_simp
  then show ?thesis
    by (cases "scrape_data second_page_fails three_records [0, 1, 2]") auto
qed

lemma example_run_returns:
  "\<exists>deps st deps' st'. load_excel dependency_sheet empty_store = Inr (deps, st)
      \<and> scrape_data second_page_fails st deps = Inr (deps', st')"
proof -
  have "case load_excel dependency_sheet empty_store of
     Inl e \<Rightarrow> False
   | Inr loaded \<Rightarrow>
       (case scrape_data second_page_fails (snd loaded) (fst loaded) of
          Inl e \<Rightarrow> False | Inr scraped \<Rightarrow> True)"
    by code_simp
  then show ?thesis
    by (cases "load_excel dependency_sheet empty_store";
        cases "scrape_data second_page_fails (snd (projr (load_excel dependency_sheet empty_store)))
                 (fst (projr (load_excel dependency_sheet empty_store)))") auto
qed

text \<open>
  Claim C8. Whenever \<^verbatim>\<open>scrape_data\<close> returns, it returns the list it was given, and
  in every dictionary of the store the value under url is the one from before the call,
  as is the value under any key other than library, vulnerabilities and date; this
  covers the records whose scrape failed. Run after \<^verbatim>\<open>load_excel\<close>, the URLs of
  the returned records are the cells of column 10 of the sheet, row by row.
\<close>

theorem url_never_mutated:
  "(scrape_data web st deps = Inr (deps', st') \<longrightarrow>
      deps' = deps
      \<and> (\<forall>r. map_of (objs st' r) ''url'' = map_of (objs st r) ''url'')
      \<and> (\<forall>r k. k \<notin> {''library'', ''vulnerabilities'', ''date''} \<longrightarrow>
            map_of (objs st' r) k = map_of (objs st r) k))
   \<and> (load_excel sheet st0 = Inr (deps, st) \<and> scrape_data web st deps = Inr (deps', st') \<longrightarrow>
      map (\<lambda>r. map_of (objs st' r) ''url'') deps'
        = map (\<lambda>r. Some (cell sheet r 10)) [2..<nrows sheet])"
proof (intro conjI impI allI)
  assume run: "scrape_data web st deps = Inr (deps', st')"
  show "deps' = deps" by (rule scrape_data_frame(1) [OF run])
  show "map_of (objs st' r) ''url'' = map_of (objs st r) ''url''" for r
    by (rule scrape_data_frame(3) [OF run]) simp
  show "map_of (objs st' r) k = map_of (objs st r) k"
    if "k \<notin> {''library'', ''vulnerabilities'', ''date''}" for r k
    using that by (intro scrape_data_frame(3) [OF run]) auto
next
  assume both: "load_excel sheet st0 = Inr (deps, st) \<and> scrape_data web st deps = Inr (deps', st')"
  then have run: "scrape_data web st deps = Inr (deps', st')" and load: "load_excel sheet st0 = Inr (deps, st)"
    by simp_all
  have "map_of (objs st' r) ''url'' = map_of (objs st r) ''url''" for r
    by (rule scrape_data_frame(3) [OF run]) simp
  then show "map (\<lambda>r. map_of (objs st' r) ''url'') deps'
        = map (\<lambda>r. Some (cell sheet r 10)) [2..<nrows sheet]"
    using loaded_urls [OF load] scrape_data_frame(1) [OF run] by simp
qed

theorem url_never_mutated_witness:
  "(\<exists>st'. scrape_data second_page_fails three_records [0, 1, 2] = Inr ([0, 1, 2], st')
      \<and> map_of (objs st' 1) ''url'' = Some (PStr ''https://repo.example/1''))
   \<and> (\<exists>deps st deps' st'. load_excel dependency_sheet empty_store = Inr (deps, st)
      \<and> scrape_data second_page_fails st deps = Inr (deps', st')
      \<and> map (\<lambda>r. map_of (objs st' r) ''url'') deps'
          = [Some (PStr ''https://repo.example/2''), Some (PStr ''https://repo.example/3'')])"
proof (intro conjI)
  from example_scrape_returns obtain st' where
    run: "scrape_data second_page_fails three_records [0, 1, 2] = Inr ([0, 1, 2], st')"
    by blast
  from url_never_mutated [of second_page_fails three_records "[0, 1, 2]" "[0, 1, 2]" st',
      THEN conjunct1, THEN mp, OF run]
  have "map_of (objs st' 1) ''url'' = map_of (objs three_records 1) ''url''"
    by blast
  then have "map_of (objs st' 1) ''url'' = Some (PStr ''https://repo.example/1'')"
    by (simp add: three_records_def new_dependency_def digits.simps digit_char_def)
  with run show "\<exists>st'. scrape_data second_page_fails three_records [0, 1, 2] = Inr ([0, 1, 2], st')
      \<and> map_of (objs st' 1) ''url'' = Some (PStr ''https://repo.example/1'')"
    by blast
next
  from example_run_returns obtain deps st deps' st' where
    run: "load_excel dependency_sheet empty_store = Inr (deps, st)
      \<and> scrape_data second_page_fails st deps = Inr (deps', st')"
    by blast
  from url_never_mutated [of second_page_fails st deps deps' st' dependency_sheet empty_store,
      THEN conjunct2, THEN mp, OF run]
  have "map (\<lambda>r. map_of (objs st' r) ''url'') deps'
          = map (\<lambda>r. Some (cell dependency_sheet r 10)) [2..<nrows dependency_sheet]" .
  also have "\<dots> = [Some (PStr ''https://repo.example/2''), Some (PStr ''https://repo.example/3'')]"
    by (simp add: dependency_sheet_def upt_conv_Cons digits.simps digit_char_def)
  finally have "load_excel dependency_sheet empty_store = Inr (deps, st)
      \<and> scrape_data second_page_fails st deps = Inr (deps', st')
      \<and> map (\<lambda>r. map_of (objs st' r) ''url'') deps'
          = [Some (PStr ''https://repo.example/2''), Some (PStr ''https://repo.example/3'')]"
    using run by simp
  then show "\<exists>deps st deps' st'. load_excel dependency_sheet empty_store = Inr (deps, st)
      \<and> scrape_data second_page_fails st deps = Inr (deps', st')
      \<and> map (\<lambda>r. map_of (objs st' r) ''url'') deps'
          = [Some (PStr ''https://repo.example/2''), Some (PStr ''https://repo.example/3'')]"
    by (intro exI)
qed

section \<open>A page without the expected labels\<close>

lemma try_block_table_keys:
  assumes "length cs \<le> length hs"
  shows "fst ` set (outcome_of (try_block (VersionsTable hs cs) i)) \<subseteq> set hs"
proof -
  from try_block_table [OF assms, of i] obtain rd i' where
    "try_block (VersionsTable hs cs) i = Inr (rd, i')" "fst ` set rd \<subseteq> set hs"
    by blast
  then show ?thesis by (simp add: outcome_of_def)
qed

text \<open>
  Claim C10. Let the scrape of record \<open>k\<close> succeed (the page shows a versions table
  whose first row has no more cells than the header) while the header lacks one of the
  labels Version, Vulnerabilities and Date. Then the scrape loop ends normally and the
  raw outcome of record \<open>k\<close> is the scraped row, not the default outcome; the
  formatting iteration for \<open>k\<close> raises \<^verbatim>\<open>KeyError\<close> in whatever store it
  starts; \<^verbatim>\<open>scrape_data\<close> raises instead of returning; and when the formatting of
  the records before \<open>k\<close> raises nothing, what \<^verbatim>\<open>scrape_data\<close> raises is that
  \<^verbatim>\<open>KeyError\<close>.
\<close>

theorem missing_labels_abort_run:
  assumes urls: "map (\<lambda>dep. map_of (objs st dep) ''url'') deps = map Some urls"
    and k: "k < length deps"
    and page: "web k (urls ! k) = VersionsTable hs cs"
    and fits: "length cs \<le> length hs"
    and missing: "\<not> {''Version'', ''Vulnerabilities'', ''Date''} \<subseteq> set hs"
  shows "\<exists>sc. scrape_loop web st (enumerate 0 deps) new_scraper = Inr sc
           \<and> fst ` set (first_rows_of_version_table sc ! k) \<subseteq> set hs
           \<and> first_rows_of_version_table sc ! k \<noteq> default_outcome
           \<and> (\<forall>st1. format_record k deps (first_rows_of_version_table sc) st1 = Inl KeyError)
           \<and> (\<exists>e. scrape_data web st deps = Inl e)
           \<and> (\<forall>st1. format_loop [0..<k] deps (first_rows_of_version_table sc) st = Inr st1 \<longrightarrow>
                 scrape_data web st deps = Inl KeyError)"
proof -
  define sc where "sc = projr (scrape_loop web st (enumerate 0 deps) new_scraper)"
  have loop: "scrape_loop web st (enumerate 0 deps) new_scraper = Inr sc"
    by (simp add: sc_def scrape_loop_closed_form [OF urls])
  define rows where "rows = first_rows_of_version_table sc"
  have len: "length rows = length deps"
    by (simp add: rows_def sc_def scrape_loop_closed_form [OF urls])
  have rowk: "rows ! k = outcome_of (try_block (VersionsTable hs cs) k)"
    using k page by (simp add: rows_def sc_def scrape_loop_closed_form [OF urls])
  have keys: "fst ` set (rows ! k) \<subseteq> set hs"
    unfolding rowk by (rule try_block_table_keys [OF fits])
  with missing have lacks: "\<not> {''Version'', ''Vulnerabilities'', ''Date''} \<subseteq> fst ` set (rows ! k)"
    by blast
  then have nodef: "rows ! k \<noteq> default_outcome"
    by (auto simp: default_outcome_def)
  have rec: "format_record k deps rows st1 = Inl KeyError" for st1
    using k len lacks by (intro format_record_KeyError) simp_all
  have drv: "driver sc = Some (length deps - 1)"
    using k by (auto simp: sc_def scrape_loop_closed_form [OF urls])
  obtain d where "length deps = k + Suc d" using k by (auto simp: less_iff_Suc_add)
  then have "[0..<length deps] = [0..<k] @ k # [Suc k..<length deps]"
    using upt_add_eq_append [of 0 k "Suc d"] upt_conv_Cons [of k "length deps"] k by simp
  moreover have "format_loop (k # [Suc k..<length deps]) deps rows
      = (\<lambda>st1. and_then (format_record k deps rows st1) (format_loop [Suc k..<length deps] deps rows))"
    by (rule ext) simp
  ultimately have fl: "format_loop [0..<length deps] deps rows st
      = and_then (format_loop [0..<k] deps rows st)
          (\<lambda>st1. and_then (format_record k deps rows st1) (format_loop [Suc k..<length deps] deps rows))"
    by (simp add: format_loop_append)
  have sd: "scrape_data web st deps
      = and_then (format_loop [0..<length deps] deps rows st) (\<lambda>st'. Inr (deps, st'))"
    by (simp add: scrape_data_def loop drv rows_def)
  have abort: "\<exists>e. scrape_data web st deps = Inl e"
    unfolding sd fl by (cases "format_loop [0..<k] deps rows st") (simp_all add: rec)
  have first: "scrape_data web st deps = Inl KeyError"
    if "format_loop [0..<k] deps rows st = Inr st1" for st1
    unfolding sd fl using that by (simp add: rec)
  show ?thesis
    using loop keys nodef rec abort first unfolding rows_def by blast
qed

theorem missing_labels_abort_run_witness:
  "scrape_data page_without_date three_records [0, 1, 2] = Inl KeyError"
proof -
  define urls where "urls = [PStr ''https://repo.example/0'', PStr ''https://repo.example/1'',
                             PStr ''https://repo.example/2'']"
  have "\<exists>sc. scrape_loop page_without_date three_records (enumerate 0 [0, 1, 2]) new_scraper = Inr sc
           \<and> fst ` set (first_rows_of_version_table sc ! 0)
               \<subseteq> set [''Version'', ''Vulnerabilities'', ''Released'']
           \<and> first_rows_of_version_table sc ! 0 \<noteq> default_outcome
           \<and> (\<forall>st1. format_record 0 [0, 1, 2] (first_rows_of_version_table sc) st1 = Inl KeyError)
           \<and> (\<exists>e. scrape_data page_without_date three_records [0, 1, 2] = Inl e)
           \<and> (\<forall>st1. format_loop [0..<0] [0, 1, 2] (first_rows_of_version_table sc) three_records = Inr st1 \<longrightarrow>
                 scrape_data page_without_date three_records [0, 1, 2] = Inl KeyError)"
  proof (rule missing_labels_abort_run [of three_records "[0, 1, 2]" urls 0 page_without_date
        "[''Version'', ''Vulnerabilities'', ''Released'']"
        "[Some ''2.16.1'', Some ''2 vulnerabilities'', Some ''Jan 5, 2024'']"])
    show "map (\<lambda>dep. map_of (objs three_records dep) ''url'') [0, 1, 2] = map Some urls"
      by (simp add: urls_def three_records_def new_dependency_def digits.simps digit_char_def)
    show "0 < length [0::nat, 1, 2]" by simp
    show "page_without_date 0 (urls ! 0) = VersionsTable [''Version'', ''Vulnerabilities'', ''Released'']
        [Some ''2.16.1'', Some ''2 vulnerabilities'', Some ''Jan 5, 2024'']"
      by (simp add: page_without_date_def)
    show "length [Some ''2.16.1'', Some ''2 vulnerabilities'', Some ''Jan 5, 2024'']
        \<le> length [''Version'', ''Vulnerabilities'', ''Released'']"
      by simp
    show "\<not> {''Version'', ''Vulnerabilities'', ''Date''}
        \<subseteq> set [''Version'', ''Vulnerabilities'', ''Released'']"
      by simp
  qed
  then show ?thesis by auto
qed

section \<open>The JSON sink\<close>

text \<open>
  On a dictionary with distinct keys the loop over the items replaces every value
  by its serialized form, in place; a dictionary that the list names twice is
  serialized twice, which changes nothing the second time.
\<close>

lemma update_in_place:
  "k \<notin> fst ` set xs \<Longrightarrow> AList.update k x (xs @ (k, v) # ys) = xs @ (k, x) # ys"
  by (induction xs) auto

lemma serialize_item_in_place:
  assumes "k \<notin> fst ` set xs"
  shows "serialize_item k v (xs @ (k, v) # ys) = xs @ (k, json_ready v) # ys"
  using assms by (cases v) (simp_all add: serialize_item_def setitem_def update_in_place)

lemma serialize_items_suffix:
  "distinct (map fst (pre @ items)) \<Longrightarrow>
     serialize_items items (ready_record pre @ items) = ready_record (pre @ items)"
proof (induction items arbitrary: pre)
  case Nil
  then show ?case by simp
next
  case (Cons kv items)
  obtain k v where kv: "kv = (k, v)" by (cases kv)
  from Cons.prems have fresh: "k \<notin> fst ` set (ready_record pre)"
    by (auto simp: kv ready_record_def image_iff)
  from Cons.prems have "distinct (map fst ((pre @ [(k, v)]) @ items))" by (simp add: kv)
  then have IH: "serialize_items items (ready_record (pre @ [(k, v)]) @ items)
      = ready_record ((pre @ [(k, v)]) @ items)"
    by (rule Cons.IH)
  have a: "ready_record (pre @ [(k, v)]) @ items = ready_record pre @ (k, json_ready v) # items"
    by (simp add: ready_record_def)
  have "serialize_items (kv # items) (ready_record pre @ kv # items)
      = serialize_items items (serialize_item k v (ready_record pre @ (k, v) # items))"
    by (simp add: kv)
  also have "\<dots> = serialize_items items (ready_record pre @ (k, json_ready v) # items)"
    by (simp only: serialize_item_in_place [OF fresh])
  also have "\<dots> = ready_record ((pre @ [(k, v)]) @ items)"
    by (simp only: a [symmetric] IH)
  finally show ?case by (simp add: kv)
qed

lemma serialize_items_ready:
  "distinct (map fst d) \<Longrightarrow> serialize_items d d = ready_record d"
  using serialize_items_suffix [of "[]" d] by (simp add: ready_record_def)

lemma json_ready_idem: "json_ready (json_ready v) = json_ready v"
  by (cases v) simp_all

lemma ready_record_idem: "ready_record (ready_record d) = ready_record d"
  by (simp add: ready_record_def o_def json_ready_idem)

lemma ready_record_keys: "map fst (ready_record d) = map fst d"
  by (simp add: ready_record_def o_def)

lemma map_of_ready_record: "map_of (ready_record d) k = map_option json_ready (map_of d k)"
  by (induction d) (auto simp: ready_record_def)

lemma serialize_records_ready:
  "\<forall>r\<in>set deps. distinct (map fst (objs st r)) \<Longrightarrow>
     next_ref (serialize_records deps st) = next_ref st
     \<and> (\<forall>r. objs (serialize_records deps st) r
              = (if r \<in> set deps then ready_record (objs st r) else objs st r))"
proof (induction deps arbitrary: st)
  case Nil
  then show ?case by simp
next
  case (Cons dep deps)
  define st1 where "st1 = st\<lparr>objs := (objs st)(dep := serialize_items (objs st dep) (objs st dep))\<rparr>"
  have o1: "objs st1 r = (if r = dep then ready_record (objs st r) else objs st r)" for r
    using Cons.prems by (simp add: st1_def serialize_items_ready)
  have "\<forall>r\<in>set deps. distinct (map fst (objs st1 r))"
    using Cons.prems by (simp add: o1 ready_record_keys)
  from Cons.IH [OF this]
  have "next_ref (serialize_records deps st1) = next_ref st1"
    and "\<And>r. objs (serialize_records deps st1) r
              = (if r \<in> set deps then ready_record (objs st1 r) else objs st1 r)"
    by simp_all
  moreover have "next_ref st1 = next_ref st" by (simp add: st1_def)
  moreover have "serialize_records (dep # deps) st = serialize_records deps st1"
    by (simp add: st1_def)
  ultimately show ?case by (auto simp: o1 ready_record_idem)
qed

lemma to_json_ready: "to_json (json_ready v) = Inr (json_of v)"
  by (cases v) simp_all

lemma items_to_json_ready:
  "items_to_json (ready_record d) = Inr (map (\<lambda>kv. (fst kv, json_of (snd kv))) d)"
  by (induction d) (auto simp: ready_record_def to_json_ready)

lemma records_to_json_ready:
  "records_to_json (map ready_record ds) = Inr (map json_record ds)"
  by (induction ds) (auto simp: items_to_json_ready json_record_def to_json_record_def)

lemma write_json_result:
  assumes "\<forall>r\<in>set deps. distinct (map fst (objs st r))"
  shows "write_json st deps now files
    = Inr (serialize_records deps st,
           files(strftime_Ymd now @ ''_dependencies.json''
                   \<mapsto> dumps 4 0 (JArray (map (\<lambda>r. json_record (objs st r)) deps))))"
proof -
  have eq: "map (objs (serialize_records deps st)) deps = map ready_record (map (objs st) deps)"
    using serialize_records_ready [OF assms] by simp
  have "records_to_json (map (objs (serialize_records deps st)) deps)
      = records_to_json (map ready_record (map (objs st) deps))"
    by (simp only: eq)
  also have "\<dots> = Inr (map json_record (map (objs st) deps))"
    by (rule records_to_json_ready)
  finally have "records_to_json (map (objs (serialize_records deps st)) deps)
      = Inr (map (\<lambda>r. json_record (objs st r)) deps)"
    by (simp add: o_def)
  then show ?thesis
    by (simp add: write_json_def Let_def del: dumps.simps)
qed

subsection \<open>Decimal texts\<close>











lemma dumps_array_brackets:
  "js \<noteq> [] \<Longrightarrow> hd (dumps 4 0 (JArray js)) = CHR ''['' \<and> last (dumps 4 0 (JArray js)) = CHR '']''"
  by simp





section \<open>The spreadsheet sink after the JSON sink\<close>

text \<open>
  The cell a row of the spreadsheet sink ends up with, the form of the values the
  normalize phase leaves, and the four steps of a run that ends normally.
\<close>

lemma write_cell_cells:
  "cells (write_cell ws r c v) rc
     = (if rc = (r, c) \<and> v \<noteq> None \<and> v \<noteq> Some PNone then v else cells ws rc)"
  by (cases v; cases "the v") (auto simp: write_cell_def)

lemma write_rows_below:
  "r < n \<Longrightarrow> cells (write_rows (enumerate n deps) st ws) (r, c) = cells ws (r, c)"
  by (induction deps arbitrary: n ws) (simp_all add: enumerate_simps write_cell_cells)

lemma write_rows_row:
  assumes "i < length deps" and "(c, key) \<in> {(6, ''library''), (7, ''vulnerabilities''), (9, ''date'')}"
    and "map_of (objs st (deps ! i)) key = Some v" "v \<noteq> PNone"
  shows "cells (write_rows (enumerate n deps) st ws) (n + i, c) = Some v"
  using assms
proof (induction deps arbitrary: n ws i)
  case Nil
  then show ?case by simp
next
  case (Cons dep deps)
  show ?case
  proof (cases i)
    case 0
    with Cons.prems show ?thesis
      by (auto simp: enumerate_simps write_rows_below write_cell_cells)
  next
    case (Suc j)
    with Cons.prems have "cells (write_rows (enumerate (Suc n) deps) st ws') (Suc n + j, c) = Some v"
      for ws'
      by (intro Cons.IH) simp_all
    with Suc show ?thesis by (simp add: enumerate_simps)
  qed
qed

lemma formatLibrary_form: "formatLibrary a b = Inr v \<Longrightarrow> is_text_or_nan v"
  by (auto simp: formatLibrary_def Let_def split: if_splits pyval.splits)

lemma formatVulnerability_form: "formatVulnerability a = Inr v \<Longrightarrow> is_text_or_nan v"
  by (auto simp: formatVulnerability_def and_then_eq_Inr split: if_splits pyval.splits)

lemma formatDate_form: "formatDate a = Inr v \<Longrightarrow> is_date_or_nan v"
  by (auto simp: formatDate_def split: if_splits pyval.splits option.splits)

lemma store_set_objs:
  "objs (store_set st dep k v) r = (if r = dep then AList.update k v (objs st r) else objs st r)"
  by (simp add: store_set_def setitem_def)

lemma format_record_result:
  assumes "format_record i deps rows st = Inr st'"
  shows "i < length deps" and "normalized (objs st' (deps ! i))"
    and "r \<noteq> deps ! i \<Longrightarrow> objs st' r = objs st r"
    and "distinct (map fst (objs st r)) \<Longrightarrow> distinct (map fst (objs st' r))"
proof -
  from assms obtain row ver dat vul dep lib fl fv fd where
    steps: "list_get deps i = Inr dep"
      "formatLibrary lib (PStr ver) = Inr fl" "formatVulnerability (PStr vul) = Inr fv"
      "formatDate (PStr dat) = Inr fd"
      "st' = store_set (store_set (store_set st dep ''date'' fd) dep ''library'' fl)
               dep ''vulnerabilities'' fv"
    by (auto simp: format_record_def and_then_eq_Inr)
  from steps(1) show "i < length deps" by (auto simp: list_get_def split: if_splits)
  from steps(1) have dep: "dep = deps ! i" by (auto simp: list_get_def split: if_splits)
  show "normalized (objs st' (deps ! i))"
    using formatLibrary_form [OF steps(2)] formatVulnerability_form [OF steps(3)]
      formatDate_form [OF steps(4)]
    by (simp add: steps(5) dep normalized_def store_set_objs update_conv')
  show "objs st' r = objs st r" if "r \<noteq> deps ! i"
    using that by (simp add: steps(5) dep store_set_objs)
  show "distinct (map fst (objs st' r))" if "distinct (map fst (objs st r))"
    using that by (auto simp: steps(5) store_set_objs intro!: distinct_update)
qed

lemma format_loop_normalizes:
  "format_loop is deps rows st = Inr st' \<Longrightarrow>
     (\<forall>r. normalized (objs st r) \<or> r \<in> (!) deps ` set is \<longrightarrow> normalized (objs st' r))
     \<and> (\<forall>r. distinct (map fst (objs st r)) \<longrightarrow> distinct (map fst (objs st' r)))"
proof (induction "is" arbitrary: st)
  case Nil
  then show ?case by simp
next
  case (Cons i "is")
  then obtain st1 where st1: "format_record i deps rows st = Inr st1"
    "format_loop is deps rows st1 = Inr st'"
    by (auto simp: and_then_eq_Inr)
  note rec = format_record_result [OF st1(1)]
  note IH = Cons.IH [OF st1(2)]
  show ?case
  proof (intro conjI allI impI)
    fix r assume "normalized (objs st r) \<or> r \<in> (!) deps ` set (i # is)"
    then have "normalized (objs st1 r) \<or> r \<in> (!) deps ` set is"
      using rec(2) rec(3) [of r] by (cases "r = deps ! i") auto
    with IH show "normalized (objs st' r)" by blast
  next
    fix r assume "distinct (map fst (objs st r))"
    then have "distinct (map fst (objs st1 r))" by (rule rec(4))
    with IH show "distinct (map fst (objs st' r))" by blast
  qed
qed

lemma scrape_data_normalizes:
  assumes "scrape_data web st deps = Inr (deps', st')"
  shows "\<forall>i<length deps. normalized (objs st' (deps ! i))"
    and "\<forall>r. distinct (map fst (objs st r)) \<longrightarrow> distinct (map fst (objs st' r))"
proof -
  from scrape_data_Inr(2) [OF assms] obtain sc :: scraper where
    "format_loop [0..<length deps] deps (first_rows_of_version_table sc) st = Inr st'"
    by auto
  note loop = format_loop_normalizes [OF this]
  from loop show "\<forall>i<length deps. normalized (objs st' (deps ! i))" by auto
  from loop show "\<forall>r. distinct (map fst (objs st r)) \<longrightarrow> distinct (map fst (objs st' r))" by blast
qed

lemma loaded_distinct_keys:
  assumes "load_excel sheet st0 = Inr (deps, st)"
  shows "\<forall>r\<in>set deps. distinct (map fst (objs st r))"
proof -
  from load_excel_Inr_shape [OF assms] load_excel_rows [of sheet st0] assms
  have "map (objs st) deps
      = map (\<lambda>r. new_dependency (cell sheet r 5) (cell sheet r 6) (cell sheet r 8) (cell sheet r 10))
          [2..<nrows sheet]"
    by auto
  then have "\<forall>d\<in>set (map (objs st) deps). distinct (map fst d)"
    by (simp add: new_dependency_def)
  then show ?thesis by simp
qed

lemma run_Inr:
  assumes "run web now_json now_excel sheet workbook files st0 = Inr (st3, deps, files', workbook')"
  shows "\<exists>st1 st2. load_excel sheet st0 = Inr (deps, st1)
           \<and> scrape_data web st1 deps = Inr (deps, st2)
           \<and> write_json st2 deps now_json files = Inr (st3, files')
           \<and> write_excel st3 deps now_excel workbook = Inr workbook'"
proof -
  from assms obtain loaded scraped written where
    steps: "load_excel sheet st0 = Inr loaded"
      "scrape_data web (snd loaded) (fst loaded) = Inr scraped"
      "write_json (snd scraped) (fst scraped) now_json files = Inr written"
      "write_excel (fst written) (fst scraped) now_excel workbook = Inr workbook'"
      "st3 = fst written" "deps = fst scraped" "files' = snd written"
    by (auto simp: run_def and_then_eq_Inr)
  have "fst scraped = fst loaded"
    using scrape_data_frame(1) [of web "snd loaded" "fst loaded" "fst scraped" "snd scraped"] steps(2)
    by simp
  with steps show ?thesis
    by (rule_tac x = "snd loaded" in exI, rule_tac x = "snd scraped" in exI)
       (auto simp: prod_eq_iff)
qed

lemma json_ready_text:
  "is_text_or_nan v \<Longrightarrow> \<exists>s. json_ready v = PStr s"
  "is_date_or_nan v \<Longrightarrow> \<exists>s. json_ready v = PStr s"
  by (cases v; simp)+

lemma write_excel_cells:
  assumes we: "write_excel st deps now workbook = Inr workbook'"
    and i: "i < length deps"
    and key: "(c, key) \<in> {(6, ''library''), (7, ''vulnerabilities''), (9, ''date'')}"
    and v: "map_of (objs st (deps ! i)) key = Some v" "v \<noteq> PNone"
  shows "cells (hd workbook') (3 + i, c) = Some v"
proof -
  from we obtain first others where "workbook = first # others"
    by (cases workbook) (auto simp: write_excel_def)
  with we have "hd workbook'
      = write_rows (enumerate 3 deps) st (first\<lparr>title := ''t'' @ strftime_Ymd now\<rparr>)"
    by (auto simp: write_excel_def Let_def)
  then show ?thesis using write_rows_row [OF i key v] by simp
qed

lemma serialized_cell:
  assumes norm: "normalized d" and dist: "distinct (map fst d)"
  shows "\<exists>l v t. map_of (ready_record d) ''library'' = Some (PStr l)
           \<and> map_of (ready_record d) ''vulnerabilities'' = Some (PStr v)
           \<and> map_of (ready_record d) ''date'' = Some (PStr t)"
  using norm json_ready_text
  by (auto simp: normalized_def map_of_ready_record split: option.splits)

text \<open>
  Claim C9. \<^verbatim>\<open>write_json\<close> works on the caller's dictionaries: when it returns,
  every record the list refers to holds, under each key, the serialized form of the
  value it held (the empty string for NaN, the \<^verbatim>\<open>isoformat()\<close> text for a date),
  and no other dictionary changed. In a run that ends normally \<^verbatim>\<open>write_excel\<close>
  is given the store that \<^verbatim>\<open>write_json\<close> left, and for every record the cells it
  writes in columns 6, 7 and 9 of row 3 + i are strings: the serialized forms of the
  library, vulnerabilities and date that \<^verbatim>\<open>scrape_data\<close> had produced, not the NaN
  or date values themselves.
\<close>

theorem write_json_mutates_callers_records:
  "((\<forall>r\<in>set deps. distinct (map fst (objs st r)))
      \<and> write_json st deps now files = Inr (st', files') \<longrightarrow>
        (\<forall>r\<in>set deps. objs st' r = ready_record (objs st r))
      \<and> (\<forall>r\<in>set deps. \<forall>k. map_of (objs st' r) k = map_option json_ready (map_of (objs st r) k))
      \<and> (\<forall>r. r \<notin> set deps \<longrightarrow> objs st' r = objs st r))
   \<and> json_ready PNaN = PStr [] \<and> (\<forall>d. json_ready (PDateTime d) = PStr (isoformat d))
   \<and> (run web now_json now_excel sheet workbook files0 st0 = Inr (st3, records, files3, workbook') \<longrightarrow>
        (\<exists>st1 st2. load_excel sheet st0 = Inr (records, st1)
           \<and> scrape_data web st1 records = Inr (records, st2)
           \<and> write_json st2 records now_json files0 = Inr (st3, files3)
           \<and> write_excel st3 records now_excel workbook = Inr workbook'
           \<and> (\<forall>i<length records. \<exists>l v t.
                  map_option json_ready (map_of (objs st2 (records ! i)) ''library'') = Some (PStr l)
                \<and> map_option json_ready (map_of (objs st2 (records ! i)) ''vulnerabilities'') = Some (PStr v)
                \<and> map_option json_ready (map_of (objs st2 (records ! i)) ''date'') = Some (PStr t)
                \<and> map_of (objs st3 (records ! i)) ''library'' = Some (PStr l)
                \<and> map_of (objs st3 (records ! i)) ''vulnerabilities'' = Some (PStr v)
                \<and> map_of (objs st3 (records ! i)) ''date'' = Some (PStr t)
                \<and> cells (hd workbook') (3 + i, 6) = Some (PStr l)
                \<and> cells (hd workbook') (3 + i, 7) = Some (PStr v)
                \<and> cells (hd workbook') (3 + i, 9) = Some (PStr t))))"
proof (intro conjI impI)
  assume a: "(\<forall>r\<in>set deps. distinct (map fst (objs st r)))
      \<and> write_json st deps now files = Inr (st', files')"
  then have st': "st' = serialize_records deps st"
    using write_json_result [of deps st now files] by simp
  from a have ready: "\<forall>r. objs st' r = (if r \<in> set deps then ready_record (objs st r) else objs st r)"
    unfolding st' using serialize_records_ready [of deps st] by blast
  show "\<forall>r\<in>set deps. objs st' r = ready_record (objs st r)" using ready by simp
  show "\<forall>r\<in>set deps. \<forall>k. map_of (objs st' r) k = map_option json_ready (map_of (objs st r) k)"
    using ready by (simp add: map_of_ready_record)
  show "\<forall>r. r \<notin> set deps \<longrightarrow> objs st' r = objs st r" using ready by simp
next
  show "json_ready PNaN = PStr []" by simp
  show "\<forall>d. json_ready (PDateTime d) = PStr (isoformat d)" by simp
next
  assume "run web now_json now_excel sheet workbook files0 st0 = Inr (st3, records, files3, workbook')"
  from run_Inr [OF this] obtain st1 st2 where
    load: "load_excel sheet st0 = Inr (records, st1)"
    and scrape: "scrape_data web st1 records = Inr (records, st2)"
    and wj: "write_json st2 records now_json files0 = Inr (st3, files3)"
    and we: "write_excel st3 records now_excel workbook = Inr workbook'"
    by blast
  have dist: "\<forall>r\<in>set records. distinct (map fst (objs st2 r))"
    using loaded_distinct_keys [OF load] scrape_data_normalizes(2) [OF scrape] by blast
  have st3: "st3 = serialize_records records st2"
    using write_json_result [OF dist, of now_json files0] wj by simp
  have ready: "objs st3 r = ready_record (objs st2 r)" if "r \<in> set records" for r
    unfolding st3 using serialize_records_ready [OF dist] that by simp
  have cellsI: "\<exists>l v t.
                  map_option json_ready (map_of (objs st2 (records ! i)) ''library'') = Some (PStr l)
                \<and> map_option json_ready (map_of (objs st2 (records ! i)) ''vulnerabilities'') = Some (PStr v)
                \<and> map_option json_ready (map_of (objs st2 (records ! i)) ''date'') = Some (PStr t)
                \<and> map_of (objs st3 (records ! i)) ''library'' = Some (PStr l)
                \<and> map_of (objs st3 (records ! i)) ''vulnerabilities'' = Some (PStr v)
                \<and> map_of (objs st3 (records ! i)) ''date'' = Some (PStr t)
                \<and> cells (hd workbook') (3 + i, 6) = Some (PStr l)
                \<and> cells (hd workbook') (3 + i, 7) = Some (PStr v)
                \<and> cells (hd workbook') (3 + i, 9) = Some (PStr t)"
    if i: "i < length records" for i
  proof -
    have mem: "records ! i \<in> set records" using i by simp
    have norm: "normalized (objs st2 (records ! i))"
      using scrape_data_normalizes(1) [OF scrape] i by blast
    from serialized_cell [OF norm] dist mem obtain l v t where
      s: "map_of (ready_record (objs st2 (records ! i))) ''library'' = Some (PStr l)"
        "map_of (ready_record (objs st2 (records ! i))) ''vulnerabilities'' = Some (PStr v)"
        "map_of (ready_record (objs st2 (records ! i))) ''date'' = Some (PStr t)"
      by blast
    then have m3: "map_of (objs st3 (records ! i)) ''library'' = Some (PStr l)"
      "map_of (objs st3 (records ! i)) ''vulnerabilities'' = Some (PStr v)"
      "map_of (objs st3 (records ! i)) ''date'' = Some (PStr t)"
      by (simp_all add: ready [OF mem])
    have "cells (hd workbook') (3 + i, 6) = Some (PStr l)"
      "cells (hd workbook') (3 + i, 7) = Some (PStr v)"
      "cells (hd workbook') (3 + i, 9) = Some (PStr t)"
      using m3 by (auto intro!: write_excel_cells [OF we i])
    with s m3 show ?thesis by (simp add: map_of_ready_record)
  qed
  show "\<exists>st1 st2. load_excel sheet st0 = Inr (records, st1)
           \<and> scrape_data web st1 records = Inr (records, st2)
           \<and> write_json st2 records now_json files0 = Inr (st3, files3)
           \<and> write_excel st3 records now_excel workbook = Inr workbook'
           \<and> (\<forall>i<length records. \<exists>l v t.
                  map_option json_ready (map_of (objs st2 (records ! i)) ''library'') = Some (PStr l)
                \<and> map_option json_ready (map_of (objs st2 (records ! i)) ''vulnerabilities'') = Some (PStr v)
                \<and> map_option json_ready (map_of (objs st2 (records ! i)) ''date'') = Some (PStr t)
                \<and> map_of (objs st3 (records ! i)) ''library'' = Some (PStr l)
                \<and> map_of (objs st3 (records ! i)) ''vulnerabilities'' = Some (PStr v)
                \<and> map_of (objs st3 (records ! i)) ''date'' = Some (PStr t)
                \<and> cells (hd workbook') (3 + i, 6) = Some (PStr l)
                \<and> cells (hd workbook') (3 + i, 7) = Some (PStr v)
                \<and> cells (hd workbook') (3 + i, 9) = Some (PStr t))"
    using load scrape wj we cellsI
    by (intro exI [of _ st1] exI [of _ st2] conjI allI impI) assumption+
qed

lemma example_whole_run:
  "\<exists>st3 files3 workbook'.
     run second_page_fails third_of_november third_of_november dependency_sheet blank_workbook
       Map.empty empty_store = Inr (st3, [0, 1], files3, workbook')"
proof -
  from example_run_returns obtain deps st1 deps' st2 where
    load: "load_excel dependency_sheet empty_store = Inr (deps, st1)"
    and scrape: "scrape_data second_page_fails st1 deps = Inr (deps', st2)"
    by blast
  have "1 \<le> nrows dependency_sheet" "11 \<le> ncols dependency_sheet"
    by (simp_all add: dependency_sheet_def)
  from load_excel_rows [OF this, of empty_store] load
  have deps: "deps = [0, 1]"
    by (simp add: empty_store_def dependency_sheet_def upt_conv_Cons)
  have deps': "deps' = deps" by (rule scrape_data_frame(1) [OF scrape])
  have dist: "\<forall>r\<in>set deps. distinct (map fst (objs st2 r))"
    using loaded_distinct_keys [OF load] scrape_data_normalizes(2) [OF scrape] by blast
  note wj = write_json_result [OF dist, of third_of_november Map.empty]
  have we: "\<exists>workbook'. write_excel (serialize_records deps st2) deps third_of_november
      blank_workbook = Inr workbook'"
    by (simp add: write_excel_def blank_workbook_def Let_def)
  then obtain workbook' where
    "write_excel (serialize_records deps st2) deps third_of_november blank_workbook = Inr workbook'"
    by blast
  then have "run second_page_fails third_of_november third_of_november dependency_sheet
      blank_workbook Map.empty empty_store
    = Inr (serialize_records deps st2, deps,
           Map.empty(strftime_Ymd third_of_november @ ''_dependencies.json''
                   \<mapsto> dumps 4 0 (JArray (map (\<lambda>r. json_record (objs st2 r)) deps))),
           workbook')"
    using load scrape wj by (simp add: run_def deps' del: dumps.simps)
  then show ?thesis unfolding deps by blast
qed

theorem write_json_mutates_callers_records_witness:
  "(\<exists>st' files'. write_json scraped_records [0, 1] third_of_november Map.empty = Inr (st', files')
      \<and> objs st' 1 = [(''library'', PStr ''commonsio-.jar''), (''vulnerabilities'', PStr []),
                       (''date'', PStr []), (''url'', PStr [])])
   \<and> (\<exists>st3 files3 workbook' l v t.
        run second_page_fails third_of_november third_of_november dependency_sheet blank_workbook
          Map.empty empty_store = Inr (st3, [0, 1], files3, workbook')
        \<and> map_of (objs st3 0) ''date'' = Some (PStr t)
        \<and> cells (hd workbook') (3, 6) = Some (PStr l)
        \<and> cells (hd workbook') (3, 7) = Some (PStr v)
        \<and> cells (hd workbook') (3, 9) = Some (PStr t))"
proof (intro conjI)
  have dist: "\<forall>r\<in>set [0, 1]. distinct (map fst (objs scraped_records r))"
    by (simp add: scraped_records_def new_dependency_def)
  from write_json_result [OF dist, of third_of_november Map.empty]
  obtain st' files' where
    w: "write_json scraped_records [0, 1] third_of_november Map.empty = Inr (st', files')"
    by blast
  from write_json_mutates_callers_records
    [of "[0, 1]" scraped_records third_of_november Map.empty st' files',
      THEN conjunct1, THEN mp, OF conjI, OF dist w]
  have "objs st' 1 = ready_record (objs scraped_records 1)" by simp
  then have "objs st' 1 = [(''library'', PStr ''commonsio-.jar''), (''vulnerabilities'', PStr []),
                       (''date'', PStr []), (''url'', PStr [])]"
    by (simp add: scraped_records_def new_dependency_def ready_record_def)
  with w show "\<exists>st' files'. write_json scraped_records [0, 1] third_of_november Map.empty = Inr (st', files')
      \<and> objs st' 1 = [(''library'', PStr ''commonsio-.jar''), (''vulnerabilities'', PStr []),
                       (''date'', PStr []), (''url'', PStr [])]"
    by blast
next
  from example_whole_run obtain st3 files3 workbook' where
    r: "run second_page_fails third_of_november third_of_november dependency_sheet blank_workbook
       Map.empty empty_store = Inr (st3, [0, 1], files3, workbook')"
    by blast
  from write_json_mutates_callers_records
    [of "[]" empty_store third_of_november Map.empty empty_store Map.empty second_page_fails
      third_of_november third_of_november dependency_sheet blank_workbook Map.empty empty_store
      st3 "[0, 1]" files3 workbook',
      THEN conjunct2, THEN conjunct2, THEN conjunct2, THEN mp, OF r]
  obtain l v t where
    "map_of (objs st3 ([0, 1] ! 0)) ''date'' = Some (PStr t)"
    "cells (hd workbook') (3 + 0, 6) = Some (PStr l)"
    "cells (hd workbook') (3 + 0, 7) = Some (PStr v)"
    "cells (hd workbook') (3 + 0, 9) = Some (PStr t)"
    by force
  with r show "\<exists>st3 files3 workbook' l v t.
        run second_page_fails third_of_november third_of_november dependency_sheet blank_workbook
          Map.empty empty_store = Inr (st3, [0, 1], files3, workbook')
        \<and> map_of (objs st3 0) ''date'' = Some (PStr t)
        \<and> cells (hd workbook') (3, 6) = Some (PStr l)
        \<and> cells (hd workbook') (3, 7) = Some (PStr v)
        \<and> cells (hd workbook') (3, 9) = Some (PStr t)"
    by auto
qed

section \<open>\<^verbatim>\<open>formatDate\<close>\<close>



























section \<open>Further properties of the pipeline\<close>

text \<open>
  Whenever \<^verbatim>\<open>scrape_data\<close> returns, the list it returns is the list it was given,
  that list is not empty, and the scrape loop has produced exactly one raw outcome per
  record.
\<close>

lemma scrape_record_appends:
  "scrape_record web st i dep sc = Inr sc' \<Longrightarrow>
     length (first_rows_of_version_table sc') = Suc (length (first_rows_of_version_table sc))
     \<and> driver sc' \<noteq> None"
proof (cases "map_of (objs st dep) ''url''")
  case None
  assume "scrape_record web st i dep sc = Inr sc'"
  with None show ?thesis by (simp add: scrape_record_def getitem_def Let_def)
next
  case (Some url)
  assume "scrape_record web st i dep sc = Inr sc'"
  with scrape_record_Inr [OF Some, of web i sc] show ?thesis by auto
qed

lemma scrape_loop_appends:
  "scrape_loop web st (enumerate n deps) sc = Inr sc' \<Longrightarrow>
     length (first_rows_of_version_table sc')
       = length (first_rows_of_version_table sc) + length deps
     \<and> (deps \<noteq> [] \<longrightarrow> driver sc' \<noteq> None) \<and> (deps = [] \<longrightarrow> sc' = sc)"
proof (induction deps arbitrary: n sc)
  case Nil
  then show ?case by simp
next
  case (Cons dep deps)
  then obtain sc1 where sc1: "scrape_record web st n dep sc = Inr sc1"
    "scrape_loop web st (enumerate (Suc n) deps) sc1 = Inr sc'"
    by (auto simp: enumerate_simps and_then_eq_Inr)
  from Cons.IH [OF sc1(2)] scrape_record_appends [OF sc1(1)] show ?case
    by (cases "deps = []") auto
qed

lemma scrape_data_keeps_every_record:
  assumes "scrape_data web st deps = Inr (deps', st')"
  shows "deps' = deps \<and> deps \<noteq> []
         \<and> (\<exists>sc. scrape_loop web st (enumerate 0 deps) new_scraper = Inr sc
               \<and> length (first_rows_of_version_table sc) = length deps)"
proof -
  from assms obtain sc :: scraper where sc: "scrape_loop web st (enumerate 0 deps) new_scraper = Inr sc"
    and drv: "driver sc \<noteq> None"
    by (auto simp: scrape_data_def and_then_eq_Inr split: option.splits)
  from scrape_loop_appends [OF sc] drv have "deps \<noteq> []"
    "length (first_rows_of_version_table sc) = length deps"
    by auto
  with sc scrape_data_frame(1) [OF assms] show ?thesis by blast
qed

text \<open>
  When the first body row has more cells than the header has labels,
  \<^verbatim>\<open>headers[i]\<close> raises \<^verbatim>\<open>IndexError\<close> inside the \<^verbatim>\<open>try\<close>. The handler
  gives the record the default outcome, and logs the URL under the value the inner
  loop left in \<^verbatim>\<open>i\<close>, the number of header labels, whatever the index of the
  record is.
\<close>

lemma pair_cells_overflow:
  "j \<le> length hs \<Longrightarrow> length hs < j + length cs \<Longrightarrow>
     pair_cells hs (enumerate j cs) rd i = Inl (IndexError, length hs)"
proof (induction cs arbitrary: j rd i)
  case Nil
  then show ?case by simp
next
  case (Cons c cs)
  show ?case
  proof (cases "j < length hs")
    case True
    with Cons.prems have "Suc j \<le> length hs" "length hs < Suc j + length cs" by simp_all
    from Cons.IH [OF this] True show ?thesis by (simp add: enumerate_simps)
  next
    case False
    with Cons.prems have "j = length hs" by simp
    then show ?thesis by (simp add: enumerate_simps)
  qed
qed

lemma scrape_record_too_many_cells:
  assumes "map_of (objs st dep) ''url'' = Some url"
    and "web (launched sc) url = VersionsTable hs cs" "length hs < length cs"
  shows "\<exists>sc'. scrape_record web st i dep sc = Inr sc'
           \<and> first_rows_of_version_table sc' = first_rows_of_version_table sc @ [default_outcome]
           \<and> failed_url sc' = AList.update (length hs) url (failed_url sc)"
  using assms pair_cells_overflow [of 0 hs cs "[]" i]
  by (simp add: scrape_record_Inr try_block_def outcome_of_def log_failure_def)

text \<open>
  After a failed scrape the version is the empty string. For a record with a library
  name the normalize phase then stores NaN for the vulnerabilities and the date, but a
  text for the library: the base, a hyphen, a dot and the extension.
\<close>

lemma failed_scrape_keeps_library_text:
  assumes "i < length rows" "rows ! i = default_outcome" "i < length deps"
    and "map_of (objs st (deps ! i)) ''library'' = Some (PStr name)" "name \<noteq> []"
  shows "\<exists>st' lib. format_record i deps rows st = Inr st'
           \<and> map_of (objs st' (deps ! i)) ''library'' = Some (PStr lib) \<and> lib \<noteq> []
           \<and> map_of (objs st' (deps ! i)) ''vulnerabilities'' = Some PNaN
           \<and> map_of (objs st' (deps ! i)) ''date'' = Some PNaN"
  using assms
  by (simp add: format_record_def list_get_def getitem_def default_outcome_def
      formatLibrary_def formatVulnerability_def formatDate_def Let_def store_set_objs
      update_conv')

end
